theory Spec2Isabelle
  imports Complex_Main "HOL-Library.Multiset" "HOL-Library.Word"
begin

section \<open>Calibration node of deepdive: data model\<close>

text \<open>
  The calibration node (\<^verbatim>\<open>src/unnamed/part_000\<close>) keeps its state in global variables,
  changed by the ROS callbacks \<^verbatim>\<open>LightCallback\<close>, \<^verbatim>\<open>CorrectionCallback\<close> and
  \<^verbatim>\<open>TriggerCallback\<close>, the last of which calls \<^verbatim>\<open>Solve\<close>. The globals that are only
  read after \<^verbatim>\<open>main\<close> has loaded them form the record \<open>config\<close>; the others form the
  record \<open>node\<close>, which every callback takes and returns.

  A \<^verbatim>\<open>double\<close> is modelled by the real number it stands for and a \<^verbatim>\<open>ros::Time\<close> by
  its value in seconds. The key of an epoch is computed in \<^verbatim>\<open>double\<close> and turned into a
  \<^verbatim>\<open>ros::Time\<close>: \<^verbatim>\<open>toSec\<close>, the division and the product on \<^verbatim>\<open>double\<close>, which round,
  and the constructor of a \<^verbatim>\<open>ros::Time\<close> from a \<^verbatim>\<open>double\<close> are parameters of the model
  (fields of the record \<open>externals\<close>), so that no key is computed in exact arithmetic.
  A \<^verbatim>\<open>std::map\<close> is an association list in the order of its iteration (ascending
  keys); a \<^verbatim>\<open>double[n]\<close> array is a list of length \<open>n\<close>.

  The header \<^verbatim>\<open>deepdive.hh\<close> is not among the sources. The fields of its types
  \<^verbatim>\<open>Lighthouse\<close>, \<^verbatim>\<open>Tracker\<close> and \<^verbatim>\<open>Measurement\<close> are those the node uses; its constant
  \<^verbatim>\<open>NUM_SENSORS\<close> is a setting of the model, of the type \<^verbatim>\<open>uint8_t\<close> of the counter that
  runs up to it at line 325 (a larger value would keep that loop from ending).
\<close>

type_synonym ros_time = real

record Pulse =
  sensor :: nat
  angle :: real
  duration :: real

record Light =
  frame_id :: string         \<comment> \<open>\<^verbatim>\<open>header.frame_id\<close>: the tracker's serial\<close>
  lighthouse :: string
  axis :: nat
  pulses :: "Pulse list"

record TransformStamped =
  tf_frame_id :: string      \<comment> \<open>\<^verbatim>\<open>header.frame_id\<close>\<close>
  child_frame_id :: string
  translation :: "real \<times> real \<times> real"
  rotation :: "real \<times> real \<times> real \<times> real"   \<comment> \<open>w, x, y, z\<close>

record Lighthouse =
  vTl :: "real list"
  params :: "real list"
  l_ready :: bool

record Tracker =
  bTh :: "real list"
  tTh :: "real list"
  sensors :: "real list"
  t_ready :: bool

record PoseStamped =
  ps_stamp :: ros_time
  ps_frame_id :: string
  ps_position :: "real \<times> real \<times> real"
  ps_orientation :: "real \<times> real \<times> real \<times> real"

record Path =
  path_stamp :: ros_time
  path_frame_id :: string
  poses :: "PoseStamped list"

text \<open>What the node has sent out: the paths published on \<^verbatim>\<open>pub_path_\<close> and
  \<^verbatim>\<open>pub_ekf_\<close>, the rows written to the performance file (one list of rows for each
  time the file was opened), and the arguments of each call of \<^verbatim>\<open>SendTransforms\<close>.\<close>

record outputs =
  pub_path :: "Path list"
  pub_ekf :: "Path list"
  perfile_rows :: "real list list list"
  sent_transforms :: "(real list \<times> (string \<times> Lighthouse) list \<times> (string \<times> Tracker) list) list"

record config =
  frame_world :: string
  frame_vive :: string
  frame_body :: string
  correct :: bool
  res :: real
  thresh_count :: int
  thresh_angle :: real
  thresh_duration :: real
  refine_registration :: bool
  refine_lighthouses :: bool
  refine_extrinsics :: bool
  refine_sensors :: bool
  refine_head :: bool
  refine_params :: bool
  visualize :: bool
  force2d :: bool
  smoothing :: real
  NUM_SENSORS :: "8 word"

record node =
  lighthouses :: "(string \<times> Lighthouse) list"
  trackers :: "(string \<times> Tracker) list"
  measurements :: "(ros_time \<times> Light) list"
  corrections :: "(ros_time \<times> TransformStamped) list"
  recording :: bool
  wTv :: "real list"
  timer_armed :: bool
  sent :: outputs

text \<open>\<^verbatim>\<open>m[k] = v\<close> on a \<^verbatim>\<open>std::map\<close>: the entry of \<open>k\<close> is replaced, or a new one is
  put at its place in the order of the keys.\<close>

fun map_assign :: "'k::linorder \<Rightarrow> 'v \<Rightarrow> ('k \<times> 'v) list \<Rightarrow> ('k \<times> 'v) list" where
  "map_assign k v [] = [(k, v)]"
| "map_assign k v ((k', v') # al) =
     (if k < k' then (k, v) # (k', v') # al
      else if k = k' then (k, v) # al
      else (k', v') # map_assign k v al)"

section \<open>The callbacks that ingest data\<close>

text \<open>
  \<^verbatim>\<open>LightCallback\<close>, lines 585 to 610. The loop walks the pulses from the last to the
  first and erases a pulse when its angle is above \<^verbatim>\<open>thresh_angle_ / 57.2958\<close>
  \<^emph>\<open>and\<close> its duration is below \<^verbatim>\<open>thresh_duration_ / 1e-6\<close> (the source joins the two
  tests with \<^verbatim>\<open>&&\<close>). \<open>erase_pulses\<close> treats the tail first, as the loop does.
\<close>

fun erase_pulses :: "config \<Rightarrow> Pulse list \<Rightarrow> Pulse list" where
  "erase_pulses cfg [] = []"
| "erase_pulses cfg (p # ps) =
     (let rest = erase_pulses cfg ps in
      if angle p > thresh_angle cfg / (572958 / 10000) \<and>
         duration p < thresh_duration cfg / (1 / 1000000)
      then rest else p # rest)"

text \<open>\<^verbatim>\<open>data.pulses.size() < thresh_count_\<close> compares a \<^verbatim>\<open>size_t\<close> with an \<^verbatim>\<open>int\<close>:
  the \<^verbatim>\<open>int\<close> is converted to the unsigned 64-bit type first.\<close>

definition too_few :: "config \<Rightarrow> Pulse list \<Rightarrow> bool" where
  "too_few cfg ps \<longleftrightarrow> int (length ps) mod 2 ^ 64 < thresh_count cfg mod 2 ^ 64"

definition light_accepted :: "node \<Rightarrow> Light \<Rightarrow> bool" where
  "light_accepted s msg \<longleftrightarrow>
     recording s \<and>
     (case map_of (trackers s) (frame_id msg) of None \<Rightarrow> False | Some tr \<Rightarrow>
        (case map_of (lighthouses s) (lighthouse msg) of None \<Rightarrow> False | Some lh \<Rightarrow>
           t_ready tr \<and> l_ready lh))"

definition LightCallback :: "config \<Rightarrow> ros_time \<Rightarrow> Light \<Rightarrow> node \<Rightarrow> node" where
  "LightCallback cfg now msg s =
     (let s1 = s\<lparr>timer_armed := True\<rparr> in
      if \<not> light_accepted s1 msg then s1
      else
        let data = msg\<lparr>pulses := erase_pulses cfg (pulses msg)\<rparr> in
        if too_few cfg (pulses data) then s1
        else s1\<lparr>measurements := map_assign now data (measurements s1)\<rparr>)"


text \<open>
  \<^verbatim>\<open>CorrectionCallback\<close>, lines 612 to 623. \<^verbatim>\<open>ros::Time::now()\<close> is read once for each
  transform that is stored; \<open>now n\<close> is the value of the \<open>n\<close>-th reading.
\<close>

definition is_correction :: "config \<Rightarrow> TransformStamped \<Rightarrow> bool" where
  "is_correction cfg tf \<longleftrightarrow>
     tf_frame_id tf = frame_world cfg \<and> child_frame_id tf = frame_body cfg"

fun store_corrections ::
  "config \<Rightarrow> (nat \<Rightarrow> ros_time) \<Rightarrow> nat \<Rightarrow> TransformStamped list \<Rightarrow>
   (ros_time \<times> TransformStamped) list \<Rightarrow> (ros_time \<times> TransformStamped) list" where
  "store_corrections cfg now n [] cs = cs"
| "store_corrections cfg now n (tf # tfs) cs =
     (if is_correction cfg tf
      then store_corrections cfg now (Suc n) tfs (map_assign (now n) tf cs)
      else store_corrections cfg now n tfs cs)"

definition CorrectionCallback ::
  "config \<Rightarrow> (nat \<Rightarrow> ros_time) \<Rightarrow> TransformStamped list \<Rightarrow> node \<Rightarrow> node" where
  "CorrectionCallback cfg now msg s =
     (if \<not> recording s then s
      else s\<lparr>corrections := store_corrections cfg now 0 msg (corrections s)\<rparr>)"

section \<open>Solve: what lies outside the repository\<close>

text \<open>
  \<^verbatim>\<open>Solve\<close> calls OpenCV, Eigen, Ceres and ROS, and helpers of \<^verbatim>\<open>deepdive.hh\<close>, which is
  not among the sources. What they compute is a parameter of the model:
  \<^item> \<open>Correct\<close>: the helper \<^verbatim>\<open>Correct\<close>, which replaces a pair of angles (it is taken
    to leave the lighthouse's parameters alone, as \<^verbatim>\<open>SendTransforms\<close> is taken to leave
    its arguments alone);
  \<^item> \<open>solvePnPRansac\<close>: \<^verbatim>\<open>cv::solvePnPRansac\<close> on the object points, the image points
    and the focal length, \<open>None\<close> when it returns false (it is taken as a function of
    these arguments);
  \<^item> \<open>seed_pose\<close>: the six numbers stored in \<^verbatim>\<open>wTb[bt->first]\<close>, lines 357 to 382
    (\<^verbatim>\<open>cv::Rodrigues\<close>, \<^verbatim>\<open>CeresToEigen\<close>, the product of the transforms and its
    angle-axis form);
  \<^item> \<open>prev_of_begin\<close>: \<^verbatim>\<open>std::prev(c)\<close> at line 410 has no defined result when \<open>c\<close> is
    \<^verbatim>\<open>wTb.begin()\<close>; the parameter says, for the keys of the map, whether the iterator
    that comes back differs from \<open>c\<close>, so that the test \<^verbatim>\<open>p != c\<close> passes;
  \<^item> \<open>ceres_result\<close> and \<open>IsSolutionUsable\<close>: the values \<^verbatim>\<open>ceres::Solve\<close> leaves in a
    parameter block that it may change, and the verdict of its summary;
  \<^item> \<open>rotvec_of_quat\<close> and \<open>quat_of_rotvec\<close>: the conversions done with Eigen;
  \<^item> \<open>outfile_is_open\<close>: whether the performance file could be opened;
  \<^item> \<open>ros_now\<close>: the \<open>n\<close>-th value of \<^verbatim>\<open>ros::Time::now()\<close> within one callback;
  \<^item> \<open>std_tan\<close>: the tangent of the C library on a \<^verbatim>\<open>double\<close>;
  \<^item> \<open>toSec\<close>: \<^verbatim>\<open>ros::Time::toSec\<close>, the \<^verbatim>\<open>double\<close> nearest to a time stamp;
  \<^item> \<open>double_div\<close> and \<open>double_mul\<close>: the quotient and the product of two
    \<^verbatim>\<open>double\<close>s, rounded as the machine rounds them;
  \<^item> \<open>Time_of_double\<close>: the constructor \<^verbatim>\<open>ros::Time(double)\<close>, taken to return (it
    throws when the number is outside the range of a time stamp).
\<close>

datatype block =
    B_wTv
  | B_vTl string
  | B_params string
  | B_bTh string
  | B_tTh string
  | B_sensors string
  | B_pos_xy ros_time
  | B_pos_z ros_time
  | B_rot_xy ros_time
  | B_rot_z ros_time
  | B_past_end nat

type_synonym Group = "((nat \<times> nat) \<times> real) list"

datatype residual_block =
    GroupCost_block Group "block list"
  | MotionCost_block "block list"

record Problem =
  residual_blocks :: "residual_block list"
  constant_blocks :: "block list"

record externals =
  Correct :: "real list \<Rightarrow> real \<times> real \<Rightarrow> bool \<Rightarrow> real \<times> real"
  solvePnPRansac ::
    "(real \<times> real \<times> real) list \<Rightarrow> (real \<times> real) list \<Rightarrow> real \<Rightarrow> (real list \<times> real list) option"
  seed_pose ::
    "real list \<Rightarrow> real list \<Rightarrow> real list \<times> real list \<Rightarrow> real list \<Rightarrow> real list \<Rightarrow> nat \<Rightarrow> real"
  prev_of_begin :: "ros_time list \<Rightarrow> bool"
  ceres_result :: "block \<Rightarrow> nat \<Rightarrow> real"
  IsSolutionUsable :: bool
  rotvec_of_quat :: "real \<times> real \<times> real \<times> real \<Rightarrow> nat \<Rightarrow> real"
  quat_of_rotvec :: "real \<times> real \<times> real \<Rightarrow> real \<times> real \<times> real \<times> real"
  outfile_is_open :: bool
  ros_now :: "nat \<Rightarrow> ros_time"
  std_tan :: "real \<Rightarrow> real"
  toSec :: "ros_time \<Rightarrow> real"
  double_div :: "real \<Rightarrow> real \<Rightarrow> real"
  double_mul :: "real \<Rightarrow> real \<Rightarrow> real"
  Time_of_double :: "real \<Rightarrow> ros_time"

text \<open>The part of Ceres' interface that \<^verbatim>\<open>Solve\<close> uses. A problem is the list of its
  residual blocks, each with the parameter blocks it was given, and the list of the
  blocks set constant. A parameter block is in the problem once a residual block has
  been added with it. \<^verbatim>\<open>Problem::SetParameterBlockConstant\<close> on a block that is not in
  the problem is a fatal error of Ceres, which ends the process: then the result is
  \<open>None\<close>. \<^verbatim>\<open>ceres::Solve\<close> may write to a parameter block of the problem that is not
  constant, and to nothing else. The residuals of \<^verbatim>\<open>GroupCost\<close> (lines 131 to 183) are
  not evaluated: only the blocks it is given matter here.\<close>

definition AddResidualBlock :: "residual_block \<Rightarrow> Problem \<Rightarrow> Problem" where
  "AddResidualBlock rb pr = pr\<lparr>residual_blocks := residual_blocks pr @ [rb]\<rparr>"

fun blocks_of :: "residual_block \<Rightarrow> block list" where
  "blocks_of (GroupCost_block g bs) = bs"
| "blocks_of (MotionCost_block bs) = bs"

definition parameter_blocks :: "Problem \<Rightarrow> block list" where
  "parameter_blocks pr = concat (map blocks_of (residual_blocks pr))"

definition SetParameterBlockConstant :: "block \<Rightarrow> Problem \<Rightarrow> Problem option" where
  "SetParameterBlockConstant b pr =
     (if b \<in> set (parameter_blocks pr)
      then Some (pr\<lparr>constant_blocks := constant_blocks pr @ [b]\<rparr>) else None)"

definition solved :: "externals \<Rightarrow> Problem \<Rightarrow> block \<Rightarrow> real list \<Rightarrow> real list" where
  "solved ext pr b old =
     (if b \<in> set (parameter_blocks pr) \<and> b \<notin> set (constant_blocks pr)
      then map (ceres_result ext b) [0..<length old] else old)"

text \<open>Modelled from the spec: the helper \<^verbatim>\<open>Mean\<close> of \<^verbatim>\<open>deepdive.hh\<close>, which is not among
  the sources. The specification collects "the mean azimuth/elevation if both axes have
  at least one sample": \<open>Mean\<close> fails on an empty list and gives the mean otherwise.\<close>

definition Mean :: "real list \<Rightarrow> real option" where
  "Mean xs = (if xs = [] then None else Some (sum_list xs / real (length xs)))"

text \<open>Modelled from the spec: the class \<^verbatim>\<open>Statistic\<close> of \<^verbatim>\<open>deepdive.hh\<close>, which is not
  among the sources. The specification has it "track a running mean of seeded heights":
  it keeps the values fed to it and \<open>Statistic_Mean\<close> is their mean.\<close>

record Statistic =
  fed :: "real list"

definition Feed :: "real \<Rightarrow> Statistic \<Rightarrow> Statistic" where
  "Feed x h = h\<lparr>fed := fed h @ [x]\<rparr>"

definition Statistic_Mean :: "Statistic \<Rightarrow> real" where
  "Statistic_Mean h = sum_list (fed h) / real (length (fed h))"

section \<open>Solve: bundling\<close>

text \<open>
  Lines 260 to 289. The key of an epoch is
  \<^verbatim>\<open>ros::Time(round(mt->first.toSec() / res_) * res_)\<close>; \<^verbatim>\<open>round\<close> of the C library
  rounds halves away from zero and is exact on a \<^verbatim>\<open>double\<close>.
  The nested \<^verbatim>\<open>std::map\<close> \<^verbatim>\<open>bundle[tracker][lighthouse][time][sensor][axis]\<close> is kept
  as one association list on the five keys; the keys for sensor and axis are
  \<^verbatim>\<open>uint8_t\<close>. A bucket that was never written is empty, as \<^verbatim>\<open>operator[]\<close> makes it.
\<close>

definition cpp_round :: "real \<Rightarrow> real" where
  "cpp_round x = (if 0 \<le> x then of_int \<lfloor>x + 1 / 2\<rfloor> else - of_int \<lfloor>- x + 1 / 2\<rfloor>)"

definition epoch :: "externals \<Rightarrow> real \<Rightarrow> ros_time \<Rightarrow> ros_time" where
  "epoch ext r t =
     Time_of_double ext (double_mul ext (cpp_round (double_div ext (toSec ext t) r)) r)"

type_synonym bundle_key = "string \<times> string \<times> ros_time \<times> nat \<times> nat"
type_synonym Bundle = "(bundle_key \<times> real list) list"

fun push_back :: "bundle_key \<Rightarrow> real \<Rightarrow> Bundle \<Rightarrow> Bundle" where
  "push_back k v [] = [(k, [v])]"
| "push_back k v ((k', vs) # b) =
     (if k = k' then (k', vs @ [v]) # b else (k', vs) # push_back k v b)"

definition bucket :: "Bundle \<Rightarrow> bundle_key \<Rightarrow> real list" where
  "bucket b k = (case map_of b k of None \<Rightarrow> [] | Some vs \<Rightarrow> vs)"

definition light_key :: "externals \<Rightarrow> real \<Rightarrow> ros_time \<Rightarrow> Light \<Rightarrow> Pulse \<Rightarrow> bundle_key" where
  "light_key ext r t l p =
     (frame_id l, lighthouse l, epoch ext r t, sensor p mod 256, axis l mod 256)"

definition bundle_light :: "externals \<Rightarrow> real \<Rightarrow> Bundle \<Rightarrow> ros_time \<times> Light \<Rightarrow> Bundle" where
  "bundle_light ext r b m =
     foldl (\<lambda>b p. push_back (light_key ext r (fst m) (snd m) p) (angle p) b) b (pulses (snd m))"

definition bundle_measurements :: "externals \<Rightarrow> real \<Rightarrow> (ros_time \<times> Light) list \<Rightarrow> Bundle" where
  "bundle_measurements ext r ms = foldl (bundle_light ext r) [] ms"

text \<open>The epochs of one tracker and lighthouse, in the order in which
  \<^verbatim>\<open>bundle[tt->first][lt->first]\<close> is iterated.\<close>

definition epochs_of :: "Bundle \<Rightarrow> string \<Rightarrow> string \<Rightarrow> ros_time list" where
  "epochs_of b ts ls =
     sort (remdups (map (\<lambda>(k, vs). fst (snd (snd k)))
       (filter (\<lambda>(k, vs). fst k = ts \<and> fst (snd k) = ls) b)))"

section \<open>Solve: the bootstrap and the problem it builds\<close>

text \<open>The variables of \<^verbatim>\<open>Solve\<close> that the loops of lines 311 to 444 change. \<open>pnp_calls\<close>
  has no counterpart in the source: it lists the lighthouse, tracker and epoch of every
  call of \<^verbatim>\<open>cv::solvePnPRansac\<close>, in the order of the calls, and \<open>count_obs\<close> is the
  variable \<^verbatim>\<open>count\<close>, which the source increments after each call. \<open>aborted\<close> has no
  counterpart either: it is set when Ceres has ended the process, and from then on no
  statement of \<^verbatim>\<open>Solve\<close> has an effect.\<close>

record locals =
  wTb :: "(ros_time \<times> real list) list"
  problem :: Problem
  height :: Statistic
  count_obs :: "32 word"
  pnp_calls :: "(string \<times> string \<times> ros_time) list"
  aborted :: bool

text \<open>\<^verbatim>\<open>problem.SetParameterBlockConstant(b)\<close> as a statement of \<^verbatim>\<open>Solve\<close>.\<close>

definition set_constant :: "block \<Rightarrow> locals \<Rightarrow> locals" where
  "set_constant b loc =
     (if aborted loc then loc
      else case SetParameterBlockConstant b (problem loc) of
             Some pr \<Rightarrow> loc\<lparr>problem := pr\<rparr>
           | None \<Rightarrow> loc\<lparr>aborted := True\<rparr>)"

text \<open>Lines 303 to 305: the principal distance \<^verbatim>\<open>z\<close> of the synthetic image plane.\<close>

definition z_plane :: "externals \<Rightarrow> real" where
  "z_plane ext = 1 / (2 * std_tan ext ((20944 / 10000) / 2))"

text \<open>Lines 325 to 344: one round of the loop over the sensors.\<close>

definition sensor_step ::
  "externals \<Rightarrow> config \<Rightarrow> Bundle \<Rightarrow> string \<Rightarrow> Lighthouse \<Rightarrow> string \<Rightarrow> Tracker \<Rightarrow> ros_time \<Rightarrow>
   Group \<times> (real \<times> real \<times> real) list \<times> (real \<times> real) list \<Rightarrow> nat \<Rightarrow>
   Group \<times> (real \<times> real \<times> real) list \<times> (real \<times> real) list" where
  "sensor_step ext cfg b ls lh ts tr t acc s =
     (case Mean (bucket b (ts, ls, t, s, 0)) of
        None \<Rightarrow> acc
      | Some a0 \<Rightarrow>
          (case Mean (bucket b (ts, ls, t, s, 1)) of
             None \<Rightarrow> acc
           | Some a1 \<Rightarrow>
               (let c = Correct ext (params lh) (a0, a1) (correct cfg) in
                (fst acc @ [((s, 0), a0), ((s, 1), a1)],
                 fst (snd acc) @
                   [(sensors tr ! (s * 6), sensors tr ! (s * 6 + 1), sensors tr ! (s * 6 + 2))],
                 snd (snd acc) @
                   [(z_plane ext * std_tan ext (fst c), z_plane ext * std_tan ext (snd c))]))))"

definition correspondences ::
  "externals \<Rightarrow> config \<Rightarrow> Bundle \<Rightarrow> string \<Rightarrow> Lighthouse \<Rightarrow> string \<Rightarrow> Tracker \<Rightarrow> ros_time \<Rightarrow>
   Group \<times> (real \<times> real \<times> real) list \<times> (real \<times> real) list" where
  "correspondences ext cfg b ls lh ts tr t =
     foldl (sensor_step ext cfg b ls lh ts tr t) ([], [], []) [0..<unat (NUM_SENSORS cfg)]"

text \<open>\<^verbatim>\<open>std::prev(c)\<close> for the entry of \<open>t\<close>: the key before \<open>t\<close>, or \<open>None\<close> when \<open>t\<close>
  is the first key and the source steps back from \<^verbatim>\<open>begin()\<close>.\<close>

fun std_prev :: "ros_time list \<Rightarrow> ros_time \<Rightarrow> ros_time option" where
  "std_prev (k # k' # ks) t = (if k' = t then Some k else std_prev (k' # ks) t)"
| "std_prev ks t = None"

definition pose_blocks :: "ros_time \<Rightarrow> block list" where
  "pose_blocks t = [B_pos_xy t, B_pos_z t, B_rot_xy t, B_rot_z t]"

text \<open>Lines 408 to 426.\<close>

definition link_motion :: "externals \<Rightarrow> ros_time \<Rightarrow> locals \<Rightarrow> locals" where
  "link_motion ext t loc =
     (case std_prev (map fst (wTb loc)) t of
        Some p \<Rightarrow>
          loc\<lparr>problem := AddResidualBlock (MotionCost_block (pose_blocks p @ pose_blocks t))
                 (problem loc)\<rparr>
      | None \<Rightarrow>
          if prev_of_begin ext (map fst (wTb loc))
          then loc\<lparr>problem := AddResidualBlock
                 (MotionCost_block (map B_past_end [0, 1, 2, 3] @ pose_blocks t)) (problem loc)\<rparr>
          else loc)"

text \<open>Lines 357 to 426: the branch taken when \<^verbatim>\<open>cv::solvePnPRansac\<close> returns true.\<close>

definition seed_epoch ::
  "externals \<Rightarrow> config \<Rightarrow> node \<Rightarrow> string \<Rightarrow> Lighthouse \<Rightarrow> string \<Rightarrow> Tracker \<Rightarrow> ros_time \<Rightarrow>
   Group \<Rightarrow> real list \<times> real list \<Rightarrow> locals \<Rightarrow> locals" where
  "seed_epoch ext cfg st ls lh ts tr t grp RT loc =
     (let pose = map (seed_pose ext (wTv st) (vTl lh) RT (tTh tr) (bTh tr)) [0..<6];
          loc1 = loc\<lparr>wTb := map_assign t pose (wTb loc),
                     height := Feed (pose ! 2) (height loc),
                     problem := AddResidualBlock
                       (GroupCost_block grp
                          ([B_wTv, B_vTl ls] @ pose_blocks t @
                           [B_bTh ts, B_tTh ts, B_sensors ts, B_params ls]))
                       (problem loc)\<rparr>;
          loc2 = (if force2d cfg
                  then set_constant (B_rot_xy t) (set_constant (B_pos_z t)
                         (loc1\<lparr>wTb := map_assign t (pose[3 := 0, 4 := 0]) (wTb loc1)\<rparr>))
                  else loc1)
      in if \<not> aborted loc2 \<and> smoothing cfg > 0 then link_motion ext t loc2 else loc2)"

text \<open>Lines 320 to 429: one epoch of one tracker and lighthouse.\<close>

definition epoch_step ::
  "externals \<Rightarrow> config \<Rightarrow> node \<Rightarrow> Bundle \<Rightarrow> string \<Rightarrow> Lighthouse \<Rightarrow> string \<Rightarrow> Tracker \<Rightarrow>
   locals \<Rightarrow> ros_time \<Rightarrow> locals" where
  "epoch_step ext cfg st b ls lh ts tr loc t =
     (if aborted loc then loc
      else
        let cs = correspondences ext cfg b ls lh ts tr t in
        if length (fst (snd cs)) > 3 then
          (let loc1 = (case solvePnPRansac ext (fst (snd cs)) (snd (snd cs)) (z_plane ext) of
                         Some RT \<Rightarrow> seed_epoch ext cfg st ls lh ts tr t (fst cs) RT loc
                       | None \<Rightarrow> loc)
           in if aborted loc1 then loc1
              else loc1\<lparr>count_obs := count_obs loc1 + 1,
                        pnp_calls := pnp_calls loc1 @ [(ls, ts, t)]\<rparr>)
        else loc)"

text \<open>Lines 314 to 438: one tracker of one lighthouse.\<close>

definition fix_tracker :: "config \<Rightarrow> string \<Rightarrow> locals \<Rightarrow> locals" where
  "fix_tracker cfg ts loc =
     (let loc1 = (if \<not> refine_extrinsics cfg then set_constant (B_bTh ts) loc else loc);
          loc2 = (if \<not> refine_head cfg then set_constant (B_tTh ts) loc1 else loc1)
      in if \<not> refine_sensors cfg then set_constant (B_sensors ts) loc2 else loc2)"

definition tracker_step ::
  "externals \<Rightarrow> config \<Rightarrow> node \<Rightarrow> Bundle \<Rightarrow> string \<Rightarrow> Lighthouse \<Rightarrow> locals \<Rightarrow>
   string \<times> Tracker \<Rightarrow> locals" where
  "tracker_step ext cfg st b ls lh loc tt =
     fix_tracker cfg (fst tt)
       (foldl (epoch_step ext cfg st b ls lh (fst tt) (snd tt)) loc (epochs_of b (fst tt) ls))"

text \<open>Lines 311 to 444: one lighthouse; \<open>first\<close> says whether \<^verbatim>\<open>lt\<close> is
  \<^verbatim>\<open>lighthouses_.begin()\<close>.\<close>

definition fix_lighthouse :: "config \<Rightarrow> bool \<Rightarrow> string \<Rightarrow> locals \<Rightarrow> locals" where
  "fix_lighthouse cfg first ls loc =
     (let loc1 = (if \<not> refine_lighthouses cfg \<or> first then set_constant (B_vTl ls) loc else loc)
      in if \<not> refine_params cfg then set_constant (B_params ls) loc1 else loc1)"

definition lighthouse_step ::
  "externals \<Rightarrow> config \<Rightarrow> node \<Rightarrow> Bundle \<Rightarrow> bool \<Rightarrow> locals \<Rightarrow> string \<times> Lighthouse \<Rightarrow> locals" where
  "lighthouse_step ext cfg st b first loc lt =
     fix_lighthouse cfg first (fst lt)
       (foldl (tracker_step ext cfg st b (fst lt) (snd lt)) loc (trackers st))"

fun lighthouse_loop ::
  "externals \<Rightarrow> config \<Rightarrow> node \<Rightarrow> Bundle \<Rightarrow> bool \<Rightarrow> (string \<times> Lighthouse) list \<Rightarrow> locals \<Rightarrow>
   locals" where
  "lighthouse_loop ext cfg st b first [] loc = loc"
| "lighthouse_loop ext cfg st b first (lt # lts) loc =
     lighthouse_loop ext cfg st b False lts (lighthouse_step ext cfg st b first loc lt)"

definition locals_init :: locals where
  "locals_init =
     \<lparr>wTb = [], problem = \<lparr>residual_blocks = [], constant_blocks = []\<rparr>,
      height = \<lparr>fed = []\<rparr>, count_obs = 0, pnp_calls = [], aborted = False\<rparr>"

text \<open>Lines 298 to 455: the problem and the poses as they stand when \<^verbatim>\<open>ceres::Solve\<close>
  is called, or when Ceres has ended the process.\<close>

definition Solve_bootstrap :: "externals \<Rightarrow> config \<Rightarrow> node \<Rightarrow> locals" where
  "Solve_bootstrap ext cfg st =
     (let b = bundle_measurements ext (res cfg) (measurements st);
          loc1 = lighthouse_loop ext cfg st b True (lighthouses st) locals_init;
          loc2 = (if \<not> refine_registration cfg then set_constant B_wTv loc1 else loc1)
      in if force2d cfg \<and> \<not> aborted loc2
         then loc2\<lparr>wTb := map (\<lambda>(t, p). (t, p[2 := Statistic_Mean (height loc2)])) (wTb loc2)\<rparr>
         else loc2)"

section \<open>Solve: the optimisation and what is sent out\<close>

text \<open>\<^verbatim>\<open>ceres::Solve\<close>, line 476, works on the memory of the parameter blocks: the
  registration, the arrays of every lighthouse and tracker, and the four parts of every
  pose of \<^verbatim>\<open>wTb\<close> (offsets 0, 2, 3 and 5, of sizes 2, 1, 2 and 1). What it may write
  through the pointers taken from a past-the-end iterator is not followed.\<close>

definition solved_pose :: "externals \<Rightarrow> Problem \<Rightarrow> ros_time \<Rightarrow> real list \<Rightarrow> real list" where
  "solved_pose ext pr t p =
     solved ext pr (B_pos_xy t) (take 2 p) @ solved ext pr (B_pos_z t) (take 1 (drop 2 p)) @
     solved ext pr (B_rot_xy t) (take 2 (drop 3 p)) @ solved ext pr (B_rot_z t) (drop 5 p)"

definition solved_lighthouse :: "externals \<Rightarrow> Problem \<Rightarrow> string \<times> Lighthouse \<Rightarrow> string \<times> Lighthouse" where
  "solved_lighthouse ext pr lt =
     (fst lt, (snd lt)\<lparr>vTl := solved ext pr (B_vTl (fst lt)) (vTl (snd lt)),
                       params := solved ext pr (B_params (fst lt)) (params (snd lt))\<rparr>)"

definition solved_tracker :: "externals \<Rightarrow> Problem \<Rightarrow> string \<times> Tracker \<Rightarrow> string \<times> Tracker" where
  "solved_tracker ext pr tt =
     (fst tt, (snd tt)\<lparr>bTh := solved ext pr (B_bTh (fst tt)) (bTh (snd tt)),
                       tTh := solved ext pr (B_tTh (fst tt)) (tTh (snd tt)),
                       sensors := solved ext pr (B_sensors (fst tt)) (sensors (snd tt))\<rparr>)"

definition ceres_Solve :: "externals \<Rightarrow> locals \<Rightarrow> node \<Rightarrow> node \<times> (ros_time \<times> real list) list" where
  "ceres_Solve ext loc st =
     (st\<lparr>wTv := solved ext (problem loc) B_wTv (wTv st),
         lighthouses := map (solved_lighthouse ext (problem loc)) (lighthouses st),
         trackers := map (solved_tracker ext (problem loc)) (trackers st)\<rparr>,
      map (\<lambda>(t, p). (t, solved_pose ext (problem loc) t p)) (wTb loc))"

text \<open>Lines 273 to 288: the corrections, one pose for each epoch; a later correction of
  the same epoch replaces the earlier one.\<close>

definition correction_pose :: "externals \<Rightarrow> TransformStamped \<Rightarrow> real list" where
  "correction_pose ext tf =
     [fst (translation tf), fst (snd (translation tf)), snd (snd (translation tf)),
      rotvec_of_quat ext (rotation tf) 0, rotvec_of_quat ext (rotation tf) 1,
      rotvec_of_quat ext (rotation tf) 2]"

definition bundle_corrections ::
  "externals \<Rightarrow> real \<Rightarrow> (ros_time \<times> TransformStamped) list \<Rightarrow> (ros_time \<times> real list) list" where
  "bundle_corrections ext r cs =
     foldl (\<lambda>corr c. map_assign (epoch ext r (fst c)) (correction_pose ext (snd c)) corr) [] cs"

text \<open>Lines 477 to 556: the outputs of a usable solution.\<close>

definition pose_stamped :: "externals \<Rightarrow> config \<Rightarrow> ros_time \<times> real list \<Rightarrow> PoseStamped" where
  "pose_stamped ext cfg tp =
     \<lparr>ps_stamp = fst tp, ps_frame_id = frame_world cfg,
      ps_position = (snd tp ! 0, snd tp ! 1, snd tp ! 2),
      ps_orientation = quat_of_rotvec ext (snd tp ! 3, snd tp ! 4, snd tp ! 5)\<rparr>"

definition compared :: "(ros_time \<times> real list) list \<Rightarrow> (ros_time \<times> real list) list \<Rightarrow>
    (ros_time \<times> real list \<times> real list) list" where
  "compared solution corr =
     concat (map (\<lambda>(t, p). case map_of corr t of None \<Rightarrow> [] | Some c \<Rightarrow> [(t, p, c)]) solution)"

definition perfile_row :: "ros_time \<Rightarrow> ros_time \<times> real list \<times> real list \<Rightarrow> real list" where
  "perfile_row t0 r =
     (fst r - t0) # map ((!) (fst (snd r))) [0..<6] @ map ((!) (snd (snd r))) [0..<6]"

definition emit ::
  "externals \<Rightarrow> config \<Rightarrow> (ros_time \<times> real list) list \<Rightarrow> (ros_time \<times> real list) list \<Rightarrow>
   node \<Rightarrow> node" where
  "emit ext cfg corr solution st =
     (let o1 = (if visualize cfg
                then (sent st)\<lparr>pub_path := pub_path (sent st) @
                       [\<lparr>path_stamp = ros_now ext 0, path_frame_id = frame_world cfg,
                         poses = map (pose_stamped ext cfg) solution\<rparr>]\<rparr>
                else sent st);
          o2 = (if outfile_is_open ext
                then o1\<lparr>perfile_rows := perfile_rows o1 @
                          [map (perfile_row (fst (hd solution))) (compared solution corr)],
                        pub_ekf := pub_ekf o1 @
                          [\<lparr>path_stamp = ros_now ext (if visualize cfg then 1 else 0),
                            path_frame_id = frame_world cfg,
                            poses = map (\<lambda>r. pose_stamped ext cfg (fst r, snd (snd r)))
                                      (compared solution corr)\<rparr>]\<rparr>
                else o1)
      in st\<lparr>sent := o2\<lparr>sent_transforms := sent_transforms o2 @
                         [(wTv st, lighthouses st, trackers st)]\<rparr>\<rparr>)"

text \<open>\<^verbatim>\<open>Solve\<close>, lines 212 to 581. It returns true or false, or does not return because
  Ceres has ended the process while the problem was built; the node given with the
  outcome holds the globals as \<^verbatim>\<open>Solve\<close> leaves them.\<close>

datatype outcome = Returned bool | Aborted

definition Solve_poses :: "externals \<Rightarrow> config \<Rightarrow> node \<Rightarrow> (ros_time \<times> real list) list" where
  "Solve_poses ext cfg st = snd (ceres_Solve ext (Solve_bootstrap ext cfg st) st)"

definition Solve :: "externals \<Rightarrow> config \<Rightarrow> node \<Rightarrow> outcome \<times> node" where
  "Solve ext cfg st =
     (if measurements st = [] then (Returned False, st)
      else
        let loc = Solve_bootstrap ext cfg st in
        if aborted loc then (Aborted, st)
        else
          let corr = bundle_corrections ext (res cfg) (corrections st);
              st1 = fst (ceres_Solve ext loc st)
          in if IsSolutionUsable ext
             then (Returned True, emit ext cfg corr (Solve_poses ext cfg st) st1)
             else (Returned False, st1))"



section \<open>The trigger and the dispatch of the callbacks\<close>

text \<open>\<^verbatim>\<open>TriggerCallback\<close>, lines 625 to 647, statement by statement. A configuration is
  the place reached in the callback, the response and the globals. While the callback is
  in \<^verbatim>\<open>Solve\<close> the place is \<open>In_Solve\<close> (\<^verbatim>\<open>Solve\<close> has been entered; lines 213 to 475
  write to no global) and then \<open>Solve_optimised\<close> (\<^verbatim>\<open>ceres::Solve\<close> of line 476 has
  written to the parameter blocks; the corrections bundled at lines 273 to 288 and the
  poses of \<^verbatim>\<open>wTb\<close> are kept with the place). \<open>Process_ended\<close> is reached when Ceres ends
  the process. \<open>TriggerCallback\<close> is the configuration in which the steps end: the
  longest way through the callback has seven steps.\<close>

record Response =
  success :: bool
  message :: string

datatype place =
    At_entry
  | At_test
  | In_Solve
  | Solve_optimised "(ros_time \<times> real list) list" "(ros_time \<times> real list) list"
  | At_message
  | At_clear
  | At_toggle
  | At_return
  | Process_ended

fun trigger_step ::
  "externals \<Rightarrow> config \<Rightarrow> place \<times> Response \<times> node \<Rightarrow> place \<times> Response \<times> node" where
  "trigger_step ext cfg (At_entry, rsp, st) =
     (At_test,
      if \<not> recording st then rsp\<lparr>success := True, message := ''Recording started.''\<rparr> else rsp,
      st)"
| "trigger_step ext cfg (At_test, rsp, st) =
     (if recording st then In_Solve else At_toggle, rsp, st)"
| "trigger_step ext cfg (In_Solve, rsp, st) =
     (if measurements st = [] then (At_message, rsp\<lparr>success := False\<rparr>, st)
      else if aborted (Solve_bootstrap ext cfg st) then (Process_ended, rsp, st)
      else (Solve_optimised (bundle_corrections ext (res cfg) (corrections st))
              (Solve_poses ext cfg st),
            rsp, fst (ceres_Solve ext (Solve_bootstrap ext cfg st) st)))"
| "trigger_step ext cfg (Solve_optimised corr sol, rsp, st) =
     (if IsSolutionUsable ext
      then (At_message, rsp\<lparr>success := True\<rparr>, emit ext cfg corr sol st)
      else (At_message, rsp\<lparr>success := False\<rparr>, st))"
| "trigger_step ext cfg (At_message, rsp, st) =
     (At_clear,
      rsp\<lparr>message := (if success rsp then ''Recording stopped. Solution found.''
                       else ''Recording stopped. Solution not found.'')\<rparr>,
      st)"
| "trigger_step ext cfg (At_clear, rsp, st) =
     (At_toggle, rsp, st\<lparr>measurements := [], corrections := []\<rparr>)"
| "trigger_step ext cfg (At_toggle, rsp, st) =
     (At_return, rsp, st\<lparr>recording := \<not> recording st\<rparr>)"
| "trigger_step ext cfg (At_return, rsp, st) = (At_return, rsp, st)"
| "trigger_step ext cfg (Process_ended, rsp, st) = (Process_ended, rsp, st)"

definition TriggerCallback ::
  "externals \<Rightarrow> config \<Rightarrow> Response \<Rightarrow> node \<Rightarrow> place \<times> Response \<times> node" where
  "TriggerCallback ext cfg rsp st = (trigger_step ext cfg ^^ 7) (At_entry, rsp, st)"

text \<open>
  \<^verbatim>\<open>main\<close> subscribes the callbacks, creates the timer and calls \<^verbatim>\<open>ros::spin()\<close>
  (lines 877 to 904): one thread takes the waiting events one at a time and runs the
  callback of each to its end before it takes the next. An event that arrives is put
  at the end of the queue, whatever the thread is doing. The events are a message on
  \<^verbatim>\<open>/light\<close> or on \<^verbatim>\<open>/tf\<close> (with what \<^verbatim>\<open>ros::Time::now()\<close> will give to its callback),
  a request on \<^verbatim>\<open>/trigger\<close>, the expiry of the timer, which fires once and whose
  callback calls \<^verbatim>\<open>TriggerCallback\<close> with a fresh response, and a message on \<^verbatim>\<open>/trackers\<close> or
  \<^verbatim>\<open>/lighthouses\<close>. The callbacks of the last two are in \<^verbatim>\<open>deepdive.hh\<close>, which is not
  among the sources; they are given \<^verbatim>\<open>trackers_\<close> or \<^verbatim>\<open>lighthouses_\<close> and nothing else
  of the globals, and the event carries the value they leave there. The model lets any
  event arrive at any time.

  \<open>running\<close> is the place and the response of the \<^verbatim>\<open>TriggerCallback\<close> under way, if
  any. The callbacks of \<^verbatim>\<open>/light\<close> and \<^verbatim>\<open>/tf\<close> are run in one step.
\<close>

datatype event =
    Light_event ros_time Light
  | Tf_event "nat \<Rightarrow> ros_time" "TransformStamped list"
  | Trigger_event
  | Timer_event
  | Trackers_event "(string \<times> Tracker) list"
  | Lighthouses_event "(string \<times> Lighthouse) list"

record spinner =
  queue :: "event list"
  running :: "(place \<times> Response) option"
  globals :: node

definition Response_init :: Response where
  "Response_init = \<lparr>success = False, message = []\<rparr>"

fun dispatch :: "config \<Rightarrow> event \<Rightarrow> spinner \<Rightarrow> spinner" where
  "dispatch cfg (Light_event now msg) c = c\<lparr>globals := LightCallback cfg now msg (globals c)\<rparr>"
| "dispatch cfg (Tf_event now msg) c = c\<lparr>globals := CorrectionCallback cfg now msg (globals c)\<rparr>"
| "dispatch cfg Trigger_event c = c\<lparr>running := Some (At_entry, Response_init)\<rparr>"
| "dispatch cfg Timer_event c =
     c\<lparr>running := Some (At_entry, Response_init),
       globals := (globals c)\<lparr>timer_armed := False\<rparr>\<rparr>"
| "dispatch cfg (Trackers_event ts) c = c\<lparr>globals := (globals c)\<lparr>trackers := ts\<rparr>\<rparr>"
| "dispatch cfg (Lighthouses_event ls) c = c\<lparr>globals := (globals c)\<lparr>lighthouses := ls\<rparr>\<rparr>"

definition spin_once :: "externals \<Rightarrow> config \<Rightarrow> spinner \<Rightarrow> spinner" where
  "spin_once ext cfg c =
     (case running c of
        None \<Rightarrow> (case queue c of [] \<Rightarrow> c | e # q \<Rightarrow> dispatch cfg e (c\<lparr>queue := q\<rparr>))
      | Some (pl, rsp) \<Rightarrow>
          if pl = At_return then c\<lparr>running := None\<rparr>
          else if pl = Process_ended then c
          else (case trigger_step ext cfg (pl, rsp, globals c) of
                  (pl', rsp', st') \<Rightarrow> c\<lparr>running := Some (pl', rsp'), globals := st'\<rparr>))"

text \<open>What happens next is either the arrival of an event or a step of the thread that
  spins.\<close>

datatype action = Arrive event | Spin

fun act :: "externals \<Rightarrow> config \<Rightarrow> spinner \<Rightarrow> action \<Rightarrow> spinner" where
  "act ext cfg c (Arrive e) = c\<lparr>queue := queue c @ [e]\<rparr>"
| "act ext cfg c Spin = spin_once ext cfg c"

text \<open>A solve is in progress: the thread is inside \<^verbatim>\<open>Solve\<close>.\<close>

fun Solve_place :: "place \<Rightarrow> bool" where
  "Solve_place In_Solve = True"
| "Solve_place (Solve_optimised corr sol) = True"
| "Solve_place pl = False"

definition solving :: "spinner \<Rightarrow> bool" where
  "solving c = (case running c of None \<Rightarrow> False | Some (pl, rsp) \<Rightarrow> Solve_place pl)"

section \<open>A small session on which the model is run\<close>

text \<open>Two lighthouses \<open>A\<close> and \<open>B\<close>, one tracker \<open>T\<close> with five sensors, and four
  sensors seen on both axes by both lighthouses in the two epochs 0 and 0.125. The stand-ins
  for the libraries are the simplest ones: the perspective solver always succeeds, the
  seeded pose is the lighthouse's pose plus \<open>0, 1, ..., 5\<close>, and the optimiser writes 42
  wherever it may. The resolution, the time stamps and the angles are multiples of powers
  of two, small enough for the quotients and products of the session to be exact on a
  \<^verbatim>\<open>double\<close>: there the stand-ins for the arithmetic, which do not round, give what the
  machine gives.\<close>

definition demo_cfg :: config where
  "demo_cfg =
     \<lparr>frame_world = ''world'', frame_vive = ''vive'', frame_body = ''body'',
      correct = False, res = 1 / 8, thresh_count = 4, thresh_angle = 60,
      thresh_duration = 1, refine_registration = True, refine_lighthouses = False,
      refine_extrinsics = False, refine_sensors = False, refine_head = False,
      refine_params = False, visualize = True, force2d = False, smoothing = 10,
      NUM_SENSORS = 5\<rparr>"

definition demo_ext :: externals where
  "demo_ext =
     \<lparr>Correct = (\<lambda>ps a c. a),
      solvePnPRansac = (\<lambda>obj img z. Some ([0, 0, 0], [0, 0, 1])),
      seed_pose = (\<lambda>v l RT t b i. l ! i + real i),
      prev_of_begin = (\<lambda>ks. False),
      ceres_result = (\<lambda>b i. 42),
      IsSolutionUsable = True,
      rotvec_of_quat = (\<lambda>q i. 0),
      quat_of_rotvec = (\<lambda>v. (1, 0, 0, 0)),
      outfile_is_open = True,
      ros_now = (\<lambda>n. 100 + real n),
      std_tan = (\<lambda>x. x),
      toSec = (\<lambda>t. t),
      double_div = (\<lambda>x y. x / y),
      double_mul = (\<lambda>x y. x * y),
      Time_of_double = (\<lambda>x. x)\<rparr>"

definition demo_light :: "string \<Rightarrow> nat \<Rightarrow> Light" where
  "demo_light ls a =
     \<lparr>frame_id = ''T'', lighthouse = ls, axis = a,
      pulses = map (\<lambda>s. \<lparr>sensor = s, angle = 1 / 8, duration = 2000000\<rparr>) [0, 1, 2, 3]\<rparr>"

definition demo_outputs :: outputs where
  "demo_outputs = \<lparr>pub_path = [], pub_ekf = [], perfile_rows = [], sent_transforms = []\<rparr>"

definition demo_idle :: node where
  "demo_idle =
     \<lparr>lighthouses =
        [(''A'', \<lparr>vTl = [0, 0, 0, 0, 0, 0], params = replicate 10 0, l_ready = True\<rparr>),
         (''B'', \<lparr>vTl = [1, 1, 1, 1, 1, 1], params = replicate 10 0, l_ready = True\<rparr>)],
      trackers =
        [(''T'', \<lparr>bTh = replicate 6 0, tTh = replicate 6 0, sensors = replicate 30 0,
                 t_ready = True\<rparr>)],
      measurements = [], corrections = [], recording = False,
      wTv = [0, 0, 0, 0, 0, 0], timer_armed = False, sent = demo_outputs\<rparr>"

definition demo_session :: node where
  "demo_session =
     demo_idle\<lparr>recording := True,
       measurements :=
         [(1 / 128, demo_light ''A'' 0), (2 / 128, demo_light ''A'' 1),
          (3 / 128, demo_light ''B'' 0), (4 / 128, demo_light ''B'' 1),
          (17 / 128, demo_light ''A'' 0), (18 / 128, demo_light ''A'' 1),
          (19 / 128, demo_light ''B'' 0), (20 / 128, demo_light ''B'' 1)]\<rparr>"

text \<open>A message on \<^verbatim>\<open>/tf\<close> with three transforms, of which the second is the body
  in the world frame; a light message whose four pulses are wide (2 rad) and long; one
  with two wide and short pulses and three narrow ones; and an empty response.\<close>

definition demo_tfs :: "TransformStamped list" where
  "demo_tfs =
     [\<lparr>tf_frame_id = ''world'', child_frame_id = ''truth'', translation = (1, 1, 1), rotation = (1, 0, 0, 0)\<rparr>,
      \<lparr>tf_frame_id = ''world'', child_frame_id = ''body'', translation = (2, 2, 2), rotation = (1, 0, 0, 0)\<rparr>,
      \<lparr>tf_frame_id = ''vive'', child_frame_id = ''body'', translation = (3, 3, 3), rotation = (1, 0, 0, 0)\<rparr>]"

definition wide_light :: Light where
  "wide_light =
     \<lparr>frame_id = ''T'', lighthouse = ''A'', axis = 0,
      pulses = map (\<lambda>s. \<lparr>sensor = s, angle = 2, duration = 2000000\<rparr>) [0, 1, 2, 3]\<rparr>"


definition demo_rsp :: Response where
  "demo_rsp = \<lparr>success = False, message = []\<rparr>"

text \<open>The lighthouses whose pose block \<^verbatim>\<open>vTl\<close> has been set constant in a problem, in the
  order of the calls.\<close>

definition vTl_fixed :: "Problem \<Rightarrow> string list" where
  "vTl_fixed pr = concat (map (\<lambda>b. case b of B_vTl l \<Rightarrow> [l] | _ \<Rightarrow> []) (constant_blocks pr))"

text \<open>The sensors of one tracker, lighthouse and epoch that have at least one sample on
  both axes, among the sensors \<open>0, ..., n - 1\<close>; and the lighthouses, trackers and epochs
  in the order in which the loops of lines 311 to 430 visit them.\<close>

definition valid_sensors :: "Bundle \<Rightarrow> string \<Rightarrow> string \<Rightarrow> ros_time \<Rightarrow> nat \<Rightarrow> nat list" where
  "valid_sensors b ts ls t n =
     filter (\<lambda>s. bucket b (ts, ls, t, s, 0) \<noteq> [] \<and> bucket b (ts, ls, t, s, 1) \<noteq> []) [0..<n]"

definition triples :: "node \<Rightarrow> Bundle \<Rightarrow> (string \<times> string \<times> ros_time) list" where
  "triples st b =
     concat (map (\<lambda>lt. concat (map (\<lambda>tt. map (\<lambda>t. (fst lt, fst tt, t))
       (epochs_of b (fst tt) (fst lt))) (trackers st))) (lighthouses st))"

text \<open>The parameter blocks of the residual block added at lines 386 to 400 for one
  lighthouse, tracker and epoch.\<close>

definition group_blocks :: "string \<times> string \<times> ros_time \<Rightarrow> block list" where
  "group_blocks k = 
     [B_wTv, B_vTl (fst k)] @ pose_blocks (snd (snd k)) @
     [B_bTh (fst (snd k)), B_tTh (fst (snd k)), B_sensors (fst (snd k)), B_params (fst k)]"

text \<open>The keys of a \<^verbatim>\<open>std::map\<close> after an assignment to the key \<open>k\<close>.\<close>

fun insert_key :: "'k::linorder \<Rightarrow> 'k list \<Rightarrow> 'k list" where
  "insert_key k [] = [k]"
| "insert_key k (k' # ks) =
     (if k < k' then k # k' # ks else if k = k' then k # ks else k' # insert_key k ks)"

text \<open>The residual blocks that lines 408 to 426 add for the epoch \<open>t\<close>, from the keys that
  \<^verbatim>\<open>wTb\<close> has by then.\<close>

definition motion_added :: "externals \<Rightarrow> config \<Rightarrow> ros_time \<Rightarrow> ros_time list \<Rightarrow> residual_block list" where
  "motion_added ext cfg t ks =
     (if smoothing cfg > 0 then
        (case std_prev ks t of
           Some p \<Rightarrow> [MotionCost_block (pose_blocks p @ pose_blocks t)]
         | None \<Rightarrow>
             if prev_of_begin ext ks
             then [MotionCost_block (map B_past_end [0, 1, 2, 3] @ pose_blocks t)] else [])
      else [])"

text \<open>What lines 347 to 382 compute for one lighthouse, tracker and epoch, apart from the
  variables of the loop: the pose that seeds \<^verbatim>\<open>wTb\<close>, when there are more than three
  correspondences and the perspective solver succeeds. \<open>seeds\<close> lists the epochs seeded and
  their poses in the order of the loops; an epoch seen by two lighthouses is listed
  twice. \<open>seeded_heights\<close> are the heights fed to the statistic.\<close>

definition bootstrap_pose ::
  "externals \<Rightarrow> config \<Rightarrow> node \<Rightarrow> Bundle \<Rightarrow> string \<Rightarrow> Lighthouse \<Rightarrow> string \<Rightarrow> Tracker \<Rightarrow>
   ros_time \<Rightarrow> real list option" where
  "bootstrap_pose ext cfg st b ls lh ts tr t =
     (let cs = correspondences ext cfg b ls lh ts tr t in
      if length (fst (snd cs)) > 3 then
        (case solvePnPRansac ext (fst (snd cs)) (snd (snd cs)) (z_plane ext) of
           Some RT \<Rightarrow> Some (map (seed_pose ext (wTv st) (vTl lh) RT (tTh tr) (bTh tr)) [0..<6])
         | None \<Rightarrow> None)
      else None)"

definition epoch_seed ::
  "externals \<Rightarrow> config \<Rightarrow> node \<Rightarrow> Bundle \<Rightarrow> string \<Rightarrow> Lighthouse \<Rightarrow> string \<Rightarrow> Tracker \<Rightarrow>
   ros_time \<Rightarrow> (ros_time \<times> real list) list" where
  "epoch_seed ext cfg st b ls lh ts tr t =
     (case bootstrap_pose ext cfg st b ls lh ts tr t of None \<Rightarrow> [] | Some p \<Rightarrow> [(t, p)])"

definition seeds :: "externals \<Rightarrow> config \<Rightarrow> node \<Rightarrow> (ros_time \<times> real list) list" where
  "seeds ext cfg st =
     (let b = bundle_measurements ext (res cfg) (measurements st) in
      concat (map (\<lambda>lt. concat (map (\<lambda>tt. concat (map
        (epoch_seed ext cfg st b (fst lt) (snd lt) (fst tt) (snd tt))
        (epochs_of b (fst tt) (fst lt)))) (trackers st))) (lighthouses st)))"

definition seeded_heights :: "externals \<Rightarrow> config \<Rightarrow> node \<Rightarrow> real list" where
  "seeded_heights ext cfg st = map (\<lambda>tp. snd tp ! 2) (seeds ext cfg st)"

text \<open>The effect of one seed on \<^verbatim>\<open>wTb\<close> (lines 377 to 382 and 401 to 403), the residual
  blocks of \<^verbatim>\<open>MotionCost\<close> in a problem, and the effect of one seed on the keys of \<^verbatim>\<open>wTb\<close>
  and on those blocks.\<close>

definition assign_seed ::
  "config \<Rightarrow> (ros_time \<times> real list) list \<Rightarrow> ros_time \<times> real list \<Rightarrow> (ros_time \<times> real list) list" where
  "assign_seed cfg w tp =
     map_assign (fst tp) (if force2d cfg then (snd tp)[3 := 0, 4 := 0] else snd tp) w"

fun is_motion :: "residual_block \<Rightarrow> bool" where
  "is_motion (MotionCost_block bs) = True"
| "is_motion (GroupCost_block g bs) = False"

definition motion_blocks :: "Problem \<Rightarrow> residual_block list" where
  "motion_blocks pr = filter is_motion (residual_blocks pr)"

definition link_step ::
  "externals \<Rightarrow> config \<Rightarrow> ros_time list \<times> residual_block list \<Rightarrow> ros_time \<times> real list \<Rightarrow>
   ros_time list \<times> residual_block list" where
  "link_step ext cfg km tp =
     (insert_key (fst tp) (fst km),
      snd km @ motion_added ext cfg (fst tp) (insert_key (fst tp) (fst km)))"

definition links :: "locals \<Rightarrow> ros_time list \<times> residual_block list" where
  "links loc = (map fst (wTb loc), motion_blocks (problem loc))"

text \<open>Under the planar constraint: every pose has six components, its two horizontal
  rotation components are 0, and its blocks for the height and for the horizontal
  rotation are constant.\<close>

definition planar :: "locals \<Rightarrow> bool" where
  "planar loc \<longleftrightarrow>
     (\<forall>tp \<in> set (wTb loc).
        length (snd tp) = 6 \<and> snd tp ! 3 = 0 \<and> snd tp ! 4 = 0 \<and>
        B_pos_z (fst tp) \<in> set (constant_blocks (problem loc)) \<and>
        B_rot_xy (fst tp) \<in> set (constant_blocks (problem loc)))"

text \<open>The session \<open>demo_session\<close> solved with the planar constraint, all lighthouses
  refined.\<close>

definition demo_planar :: config where
  "demo_planar = demo_cfg\<lparr>force2d := True, refine_lighthouses := True\<rparr>"







text \<open>The samples of a set of measurements with the bucket each one goes to, in the order
  in which lines 263 to 271 push them.\<close>

definition samples ::
  "externals \<Rightarrow> real \<Rightarrow> (ros_time \<times> Light) list \<Rightarrow> (bundle_key \<times> real) list" where
  "samples ext r ms =
     concat (map (\<lambda>m. map (\<lambda>p. (light_key ext r (fst m) (snd m) p, angle p)) (pulses (snd m))) ms)"

text \<open>Two measurements that put one sample each into the same bucket.\<close>

definition demo_pair :: "(ros_time \<times> Light) list" where
  "demo_pair =
     [(1 / 128, \<lparr>frame_id = ''T'', lighthouse = ''A'', axis = 0,
                 pulses = [\<lparr>sensor = 0, angle = 1 / 8, duration = 2000000\<rparr>]\<rparr>),
      (2 / 128, \<lparr>frame_id = ''T'', lighthouse = ''A'', axis = 0,
                 pulses = [\<lparr>sensor = 0, angle = 2 / 8, duration = 2000000\<rparr>]\<rparr>)]"

text \<open>The measurement map after observations have been stored one after the other, each
  under the time at which it was stored (line 609).\<close>

definition stored :: "(ros_time \<times> Light) list \<Rightarrow> (ros_time \<times> Light) list" where
  "stored obs = foldl (\<lambda>ms ob. map_assign (fst ob) (snd ob) ms) [] obs"

text \<open>The sensors that the specification counts for a tracker, a lighthouse and an epoch,
  read off the measurements and not off the bundle: a sensor below \<^verbatim>\<open>NUM_SENSORS\<close> counts
  when, on each of the two axes, some measurement of that tracker, lighthouse and axis
  whose time stamp has that epoch holds a pulse of the sensor.\<close>

definition sampled ::
  "externals \<Rightarrow> real \<Rightarrow> (ros_time \<times> Light) list \<Rightarrow> string \<Rightarrow> string \<Rightarrow> ros_time \<Rightarrow>
   nat \<Rightarrow> nat \<Rightarrow> bool" where
  "sampled ext r ms ts ls e s a \<longleftrightarrow>
     list_ex (\<lambda>m. frame_id (snd m) = ts \<and> lighthouse (snd m) = ls \<and> epoch ext r (fst m) = e \<and>
                  axis (snd m) mod 256 = a \<and>
                  list_ex (\<lambda>p. sensor p mod 256 = s) (pulses (snd m))) ms"

definition seen_on_both ::
  "externals \<Rightarrow> config \<Rightarrow> (ros_time \<times> Light) list \<Rightarrow> string \<Rightarrow> string \<Rightarrow> ros_time \<Rightarrow>
   nat list" where
  "seen_on_both ext cfg ms ts ls e =
     filter (\<lambda>s. sampled ext (res cfg) ms ts ls e s 0 \<and> sampled ext (res cfg) ms ts ls e s 1)
       [0..<unat (NUM_SENSORS cfg)]"

text \<open>What the bootstrap is to do in a run that Ceres does not end. An attempt is a call
  of the perspective solver: its lighthouse, tracker and epoch, the group of angles
  handed to \<^verbatim>\<open>GroupCost\<close>, and the pose seeded, or \<open>None\<close> when the solver fails.
  \<open>attempts\<close> lists, in the order of the loops, an attempt for every lighthouse, tracker
  and epoch with at least four sensors seen on both axes. \<open>attempt_step\<close> is what an
  attempt leaves behind: its entry in the list of calls and, when it gives a pose, a
  residual block of \<^verbatim>\<open>GroupCost\<close> and a key of \<^verbatim>\<open>wTb\<close>. \<open>calls\<close> reads the three off the
  variables of \<^verbatim>\<open>Solve\<close>.\<close>

type_synonym attempt = "(string \<times> string \<times> ros_time) \<times> Group \<times> real list option"

definition epoch_attempt ::
  "externals \<Rightarrow> config \<Rightarrow> node \<Rightarrow> Bundle \<Rightarrow> string \<Rightarrow> Lighthouse \<Rightarrow> string \<Rightarrow> Tracker \<Rightarrow>
   ros_time \<Rightarrow> attempt list" where
  "epoch_attempt ext cfg st b ls lh ts tr t =
     (if 4 \<le> length (valid_sensors b ts ls t (unat (NUM_SENSORS cfg)))
      then [((ls, ts, t), fst (correspondences ext cfg b ls lh ts tr t),
             bootstrap_pose ext cfg st b ls lh ts tr t)]
      else [])"

definition attempts :: "externals \<Rightarrow> config \<Rightarrow> node \<Rightarrow> attempt list" where
  "attempts ext cfg st =
     (let b = bundle_measurements ext (res cfg) (measurements st) in
      concat (map (\<lambda>lt. concat (map (\<lambda>tt. concat (map
        (epoch_attempt ext cfg st b (fst lt) (snd lt) (fst tt) (snd tt))
        (epochs_of b (fst tt) (fst lt)))) (trackers st))) (lighthouses st)))"

definition attempt_step ::
  "(string \<times> string \<times> ros_time) list \<times> residual_block list \<times> ros_time list \<Rightarrow> attempt \<Rightarrow>
   (string \<times> string \<times> ros_time) list \<times> residual_block list \<times> ros_time list" where
  "attempt_step acc att =
     (case snd (snd att) of
        None \<Rightarrow> (fst acc @ [fst att], snd acc)
      | Some p \<Rightarrow>
          (fst acc @ [fst att],
           fst (snd acc) @ [GroupCost_block (fst (snd att)) (group_blocks (fst att))],
           insert_key (snd (snd (fst att))) (snd (snd acc))))"

definition group_residuals :: "Problem \<Rightarrow> residual_block list" where
  "group_residuals pr = filter (\<lambda>rb. \<not> is_motion rb) (residual_blocks pr)"

definition calls ::
  "locals \<Rightarrow> (string \<times> string \<times> ros_time) list \<times> residual_block list \<times> ros_time list" where
  "calls loc = (pnp_calls loc, group_residuals (problem loc), map fst (wTb loc))"

text \<open>The session \<open>demo_session\<close> in which lighthouse \<open>A\<close>, though configured, has seen
  nothing: only the measurements of lighthouse \<open>B\<close> were received. And the same without
  lighthouse \<open>A\<close>.\<close>

definition demo_unseen :: node where
  "demo_unseen =
     demo_session\<lparr>measurements :=
       filter (\<lambda>m. lighthouse (snd m) = ''B'') (measurements demo_session)\<rparr>"

definition demo_only_B :: node where
  "demo_only_B = demo_unseen\<lparr>lighthouses := drop 1 (lighthouses demo_unseen)\<rparr>"

text \<open>The node with the session \<open>demo_session\<close> recorded and nothing waiting, and what
  happens when a trigger arrives and the thread has entered \<^verbatim>\<open>Solve\<close>, and then when
  \<^verbatim>\<open>ceres::Solve\<close> has returned.\<close>

definition demo_spinner :: spinner where
  "demo_spinner = \<lparr>queue = [], running = None, globals = demo_session\<rparr>"

definition demo_entering :: "action list" where
  "demo_entering = [Arrive Trigger_event, Spin, Spin, Spin]"

definition demo_optimising :: "action list" where
  "demo_optimising = demo_entering @ [Arrive (Light_event 200 wide_light), Spin]"

section \<open>Facts about the solver's interface and the outputs\<close>

lemma solved_constant: "b \<in> set (constant_blocks pr) \<Longrightarrow> solved ext pr b old = old"
  by (simp add: solved_def)

lemma length_solved: "length (solved ext pr b old) = length old"
  by (simp add: solved_def)

lemma emit_keeps:
  "wTv (emit ext cfg corr sol st) = wTv st"
  "lighthouses (emit ext cfg corr sol st) = lighthouses st"
  "trackers (emit ext cfg corr sol st) = trackers st"
  "recording (emit ext cfg corr sol st) = recording st"
  "measurements (emit ext cfg corr sol st) = measurements st"
  "corrections (emit ext cfg corr sol st) = corrections st"
  by (simp_all add: emit_def Let_def)

section \<open>Loops that Ceres may cut short\<close>

text \<open>Three facts about a loop whose body does nothing once a flag \<open>ab\<close> is set. When the
  body never sets the flag, a quantity \<open>h\<close> that every round moves with the steps
  \<open>astep\<close> over \<open>g x\<close> is moved by the loop over all of them; when the body may set the
  flag, it is moved over an initial part of them, and over all of them if the flag is
  not set at the end.\<close>

lemma foldl_fixed: "(\<And>x. step a x = a) \<Longrightarrow> foldl step a xs = a"
  by (induction xs) simp_all

lemma foldl_keeps: "(\<And>a x. f (step a x) = f a) \<Longrightarrow> f (foldl step a xs) = f a"
  by (induction xs arbitrary: a) simp_all

lemma foldl_invariant:
  "P a \<Longrightarrow> (\<And>a x. P a \<Longrightarrow> P (step a x)) \<Longrightarrow> P (foldl step a xs)"
  by (induction xs arbitrary: a) simp_all

lemma foldl_simulation_live:
  assumes "\<not> ab a"
    and "\<And>a x. \<not> ab a \<Longrightarrow> \<not> ab (step a x) \<and> h (step a x) = foldl astep (h a) (g x)"
  shows "\<not> ab (foldl step a xs) \<and>
         h (foldl step a xs) = foldl astep (h a) (concat (map g xs))"
  using assms by (induction xs arbitrary: a) simp_all

lemma foldl_simulation_take:
  assumes fixed: "\<And>a x. ab a \<Longrightarrow> step a x = a"
    and sim: "\<And>a x. \<not> ab a \<Longrightarrow>
      \<exists>n. h (step a x) = foldl astep (h a) (take n (g x)) \<and>
          (\<not> ab (step a x) \<longrightarrow> length (g x) \<le> n)"
  shows "\<exists>n. h (foldl step a xs) = foldl astep (h a) (take n (concat (map g xs))) \<and>
             (\<not> ab (foldl step a xs) \<longrightarrow> length (concat (map g xs)) \<le> n)"
proof (induction xs arbitrary: a)
  case Nil
  show ?case by simp
next
  case (Cons x xs)
  show ?case
  proof (cases "ab a")
    case True
    then have "foldl step a (x # xs) = a" by (intro foldl_fixed fixed)
    with True show ?thesis by (intro exI [of _ 0]) simp
  next
    case False
    from sim [OF False, of x] obtain n1 where
      n1: "h (step a x) = foldl astep (h a) (take n1 (g x))"
      and l1: "\<not> ab (step a x) \<Longrightarrow> length (g x) \<le> n1" by blast
    show ?thesis
    proof (cases "ab (step a x)")
      case True
      then have e: "foldl step a (x # xs) = step a x"
        by (simp add: foldl_fixed fixed)
      have "take (min n1 (length (g x))) (concat (map g (x # xs))) = take n1 (g x)"
        by (cases "n1 \<le> length (g x)") (simp_all add: min_def)
      with n1 e True show ?thesis
        by (intro exI [of _ "min n1 (length (g x))"]) simp
    next
      case False
      from Cons.IH [of "step a x"] obtain n2 where
        n2: "h (foldl step (step a x) xs) =
               foldl astep (h (step a x)) (take n2 (concat (map g xs)))"
        and l2: "\<not> ab (foldl step (step a x) xs) \<Longrightarrow> length (concat (map g xs)) \<le> n2"
        by blast
      from l1 [OF False] n1 have f: "h (step a x) = foldl astep (h a) (g x)" by simp
      show ?thesis
        using n2 l2 f by (intro exI [of _ "length (g x) + n2"]) simp
    qed
  qed
qed

lemma foldl_append_steps: "foldl (\<lambda>l y. l @ [y]) l ys = l @ ys"
  by (induction ys arbitrary: l) simp_all

section \<open>Facts about the statements of the bootstrap\<close>

lemma set_constant_keeps:
  "wTb (set_constant b loc) = wTb loc"
  "height (set_constant b loc) = height loc"
  "count_obs (set_constant b loc) = count_obs loc"
  "pnp_calls (set_constant b loc) = pnp_calls loc"
  "residual_blocks (problem (set_constant b loc)) = residual_blocks (problem loc)"
  by (simp_all add: set_constant_def SetParameterBlockConstant_def)

lemma parameter_blocks_set_constant:
  "parameter_blocks (problem (set_constant b loc)) = parameter_blocks (problem loc)"
  by (simp add: parameter_blocks_def set_constant_keeps)

lemma set_constant_aborted: "aborted loc \<Longrightarrow> set_constant b loc = loc"
  by (simp add: set_constant_def)

lemma aborted_set_constant:
  "aborted (set_constant b loc) \<longleftrightarrow> aborted loc \<or> b \<notin> set (parameter_blocks (problem loc))"
  by (simp add: set_constant_def SetParameterBlockConstant_def)

lemma constant_blocks_set_constant:
  "constant_blocks (problem (set_constant b loc)) =
     constant_blocks (problem loc) @ (if aborted (set_constant b loc) then [] else [b])"
  by (simp add: set_constant_def SetParameterBlockConstant_def)

lemma fix_tracker_keeps:
  "wTb (fix_tracker cfg ts loc) = wTb loc"
  "height (fix_tracker cfg ts loc) = height loc"
  "count_obs (fix_tracker cfg ts loc) = count_obs loc"
  "pnp_calls (fix_tracker cfg ts loc) = pnp_calls loc"
  "residual_blocks (problem (fix_tracker cfg ts loc)) = residual_blocks (problem loc)"
  by (simp_all add: fix_tracker_def Let_def set_constant_keeps)

lemma fix_lighthouse_keeps:
  "wTb (fix_lighthouse cfg first ls loc) = wTb loc"
  "height (fix_lighthouse cfg first ls loc) = height loc"
  "count_obs (fix_lighthouse cfg first ls loc) = count_obs loc"
  "pnp_calls (fix_lighthouse cfg first ls loc) = pnp_calls loc"
  "residual_blocks (problem (fix_lighthouse cfg first ls loc)) = residual_blocks (problem loc)"
  by (simp_all add: fix_lighthouse_def Let_def set_constant_keeps)

lemma fix_aborted:
  "aborted loc \<Longrightarrow> fix_tracker cfg ts loc = loc"
  "aborted loc \<Longrightarrow> fix_lighthouse cfg first ls loc = loc"
  by (simp_all add: fix_tracker_def fix_lighthouse_def Let_def set_constant_aborted)

lemma link_motion_keeps:
  "pnp_calls (link_motion ext t loc) = pnp_calls loc"
  "wTb (link_motion ext t loc) = wTb loc"
  "height (link_motion ext t loc) = height loc"
  "count_obs (link_motion ext t loc) = count_obs loc"
  "aborted (link_motion ext t loc) = aborted loc"
  "constant_blocks (problem (link_motion ext t loc)) = constant_blocks (problem loc)"
  by (simp_all add: link_motion_def AddResidualBlock_def split: option.splits)

text \<open>The blocks that lines 404 and 405 set constant have just been brought into the
  problem by the residual block of lines 386 to 400, so Ceres accepts them: as long as
  the process has not been ended, the branch of lines 357 to 426 is the following.\<close>

lemma seed_epoch_live:
  assumes "\<not> aborted loc"
  shows "seed_epoch ext cfg st ls lh ts tr t grp RT loc =
     (let pose = map (seed_pose ext (wTv st) (vTl lh) RT (tTh tr) (bTh tr)) [0..<6];
          loc1 = loc\<lparr>wTb := map_assign t pose (wTb loc),
                     height := Feed (pose ! 2) (height loc),
                     problem := AddResidualBlock
                       (GroupCost_block grp
                          ([B_wTv, B_vTl ls] @ pose_blocks t @
                           [B_bTh ts, B_tTh ts, B_sensors ts, B_params ls]))
                       (problem loc)\<rparr>;
          loc2 = (if force2d cfg
                  then loc1\<lparr>wTb := map_assign t (pose[3 := 0, 4 := 0]) (wTb loc1),
                            problem := (problem loc1)\<lparr>constant_blocks :=
                              constant_blocks (problem loc1) @ [B_pos_z t, B_rot_xy t]\<rparr>\<rparr>
                  else loc1)
      in if smoothing cfg > 0 then link_motion ext t loc2 else loc2)"
  using assms
  by (simp add: seed_epoch_def Let_def set_constant_def SetParameterBlockConstant_def
      parameter_blocks_def AddResidualBlock_def pose_blocks_def)

lemma aborted_seed_epoch:
  "\<not> aborted loc \<Longrightarrow> \<not> aborted (seed_epoch ext cfg st ls lh ts tr t grp RT loc)"
  by (simp add: seed_epoch_live Let_def link_motion_keeps)

lemma epoch_step_aborted: "aborted loc \<Longrightarrow> epoch_step ext cfg st b ls lh ts tr loc t = loc"
  by (simp add: epoch_step_def)

lemma epoch_step_live:
  assumes "\<not> aborted loc"
  shows "epoch_step ext cfg st b ls lh ts tr loc t =
     (let cs = correspondences ext cfg b ls lh ts tr t in
      if length (fst (snd cs)) > 3 then
        (let loc1 = (case solvePnPRansac ext (fst (snd cs)) (snd (snd cs)) (z_plane ext) of
                       Some RT \<Rightarrow> seed_epoch ext cfg st ls lh ts tr t (fst cs) RT loc
                     | None \<Rightarrow> loc)
         in loc1\<lparr>count_obs := count_obs loc1 + 1,
                 pnp_calls := pnp_calls loc1 @ [(ls, ts, t)]\<rparr>)
      else loc)"
  using assms
  by (simp add: epoch_step_def Let_def aborted_seed_epoch split: option.splits)

lemma aborted_epoch_step:
  "aborted (epoch_step ext cfg st b ls lh ts tr loc t) = aborted loc"
proof (cases "aborted loc")
  case True
  then show ?thesis by (simp add: epoch_step_aborted)
next
  case False
  then show ?thesis
    by (simp add: epoch_step_live Let_def aborted_seed_epoch split: option.splits)
qed

lemma epochs_aborted:
  "aborted (foldl (epoch_step ext cfg st b ls lh ts tr) loc ts') = aborted loc"
  by (rule foldl_keeps) (rule aborted_epoch_step)

lemma tracker_step_aborted:
  "aborted loc \<Longrightarrow> tracker_step ext cfg st b ls lh loc tt = loc"
  by (simp add: tracker_step_def foldl_fixed epoch_step_aborted fix_aborted)

lemma trackers_aborted:
  "aborted loc \<Longrightarrow> foldl (tracker_step ext cfg st b ls lh) loc tts = loc"
  by (simp add: foldl_fixed tracker_step_aborted)

lemma lighthouse_step_aborted:
  "aborted loc \<Longrightarrow> lighthouse_step ext cfg st b first loc lt = loc"
  by (simp add: lighthouse_step_def trackers_aborted fix_aborted)

lemma lighthouse_loop_aborted:
  "aborted loc \<Longrightarrow> lighthouse_loop ext cfg st b first lts loc = loc"
  by (induction lts arbitrary: first) (simp_all add: lighthouse_step_aborted)

text \<open>The loop over the lighthouses, for a quantity that each lighthouse moves as in
  \<open>foldl_simulation_take\<close>.\<close>

lemma lighthouse_loop_simulation:
  assumes sim: "\<And>first a x. \<not> aborted a \<Longrightarrow>
      \<exists>n. h (lighthouse_step ext cfg st b first a x) = foldl astep (h a) (take n (g x)) \<and>
          (\<not> aborted (lighthouse_step ext cfg st b first a x) \<longrightarrow> length (g x) \<le> n)"
  shows "\<exists>n. h (lighthouse_loop ext cfg st b first lts loc) =
               foldl astep (h loc) (take n (concat (map g lts))) \<and>
             (\<not> aborted (lighthouse_loop ext cfg st b first lts loc) \<longrightarrow>
                length (concat (map g lts)) \<le> n)"
proof (induction lts arbitrary: first loc)
  case Nil
  show ?case by simp
next
  case (Cons x xs)
  let ?s = "lighthouse_step ext cfg st b first loc x"
  show ?case
  proof (cases "aborted loc")
    case True
    then have "lighthouse_loop ext cfg st b first (x # xs) loc = loc"
      by (rule lighthouse_loop_aborted)
    with True show ?thesis by (intro exI [of _ 0]) simp
  next
    case False
    from sim [OF False, of first x] obtain n1 where
      n1: "h ?s = foldl astep (h loc) (take n1 (g x))"
      and l1: "\<not> aborted ?s \<Longrightarrow> length (g x) \<le> n1" by blast
    show ?thesis
    proof (cases "aborted ?s")
      case True
      then have e: "lighthouse_loop ext cfg st b first (x # xs) loc = ?s"
        by (simp add: lighthouse_loop_aborted)
      have "take (min n1 (length (g x))) (concat (map g (x # xs))) = take n1 (g x)"
        by (cases "n1 \<le> length (g x)") (simp_all add: min_def)
      with n1 e True show ?thesis
        by (intro exI [of _ "min n1 (length (g x))"]) simp
    next
      case False
      from Cons.IH [of False ?s] obtain n2 where
        n2: "h (lighthouse_loop ext cfg st b False xs ?s) =
               foldl astep (h ?s) (take n2 (concat (map g xs)))"
        and l2: "\<not> aborted (lighthouse_loop ext cfg st b False xs ?s) \<Longrightarrow>
               length (concat (map g xs)) \<le> n2"
        by blast
      from l1 [OF False] n1 have f: "h ?s = foldl astep (h loc) (g x)" by simp
      show ?thesis
        using n2 l2 f by (intro exI [of _ "length (g x) + n2"]) simp
    qed
  qed
qed

text \<open>The same for one tracker, which moves the quantity over all of \<open>g\<close> whether or not
  Ceres ends the process after its epochs, and for one lighthouse.\<close>

lemma tracker_step_simulation:
  assumes live: "\<not> aborted loc"
    and sim: "\<And>a t. \<not> aborted a \<Longrightarrow>
      h (epoch_step ext cfg st b ls lh (fst tt) (snd tt) a t) = foldl astep (h a) (g t)"
    and kept: "\<And>a. h (fix_tracker cfg (fst tt) a) = h a"
  shows "h (tracker_step ext cfg st b ls lh loc tt) =
           foldl astep (h loc) (concat (map g (epochs_of b (fst tt) ls)))"
proof -
  have "\<not> aborted (foldl (epoch_step ext cfg st b ls lh (fst tt) (snd tt)) loc
            (epochs_of b (fst tt) ls)) \<and>
        h (foldl (epoch_step ext cfg st b ls lh (fst tt) (snd tt)) loc (epochs_of b (fst tt) ls)) =
          foldl astep (h loc) (concat (map g (epochs_of b (fst tt) ls)))"
    by (rule foldl_simulation_live [where ab = aborted, OF live])
       (simp add: aborted_epoch_step sim)
  then show ?thesis by (simp add: tracker_step_def kept)
qed

lemma lighthouse_step_simulation:
  assumes live: "\<not> aborted loc"
    and sim: "\<And>a tt. \<not> aborted a \<Longrightarrow>
      h (tracker_step ext cfg st b (fst lt) (snd lt) a tt) = foldl astep (h a) (g tt)"
    and kept: "\<And>a. h (fix_lighthouse cfg first (fst lt) a) = h a"
  shows "\<exists>n. h (lighthouse_step ext cfg st b first loc lt) =
               foldl astep (h loc) (take n (concat (map g (trackers st)))) \<and>
             (\<not> aborted (lighthouse_step ext cfg st b first loc lt) \<longrightarrow>
                length (concat (map g (trackers st))) \<le> n)"
proof -
  let ?T = "foldl (tracker_step ext cfg st b (fst lt) (snd lt)) loc (trackers st)"
  have "\<exists>n. h ?T = foldl astep (h loc) (take n (concat (map g (trackers st)))) \<and>
             (\<not> aborted ?T \<longrightarrow> length (concat (map g (trackers st))) \<le> n)"
  proof (rule foldl_simulation_take [where ab = aborted])
    show "tracker_step ext cfg st b (fst lt) (snd lt) a x = a" if "aborted a" for a x
      using that by (rule tracker_step_aborted)
    show "\<exists>n. h (tracker_step ext cfg st b (fst lt) (snd lt) a x) =
                 foldl astep (h a) (take n (g x)) \<and>
               (\<not> aborted (tracker_step ext cfg st b (fst lt) (snd lt) a x) \<longrightarrow>
                  length (g x) \<le> n)"
      if "\<not> aborted a" for a x
      using sim [OF that, of x] by (intro exI [of _ "length (g x)"]) simp
  qed
  then obtain n where
    n: "h ?T = foldl astep (h loc) (take n (concat (map g (trackers st))))"
    and l: "\<not> aborted ?T \<Longrightarrow> length (concat (map g (trackers st))) \<le> n" by blast
  have "aborted ?T \<Longrightarrow> aborted (lighthouse_step ext cfg st b first loc lt)"
    by (simp add: lighthouse_step_def fix_aborted)
  with n l show ?thesis
    by (intro exI [of _ n]) (auto simp: lighthouse_step_def kept)
qed

section \<open>Facts about Solve\<close>

lemma Solve_bootstrap_problem:
  "problem (Solve_bootstrap ext cfg st) =
     problem (let L = lighthouse_loop ext cfg st
                  (bundle_measurements ext (res cfg) (measurements st)) True (lighthouses st)
                  locals_init
              in if \<not> refine_registration cfg then set_constant B_wTv L else L)"
  "aborted (Solve_bootstrap ext cfg st) =
     aborted (let L = lighthouse_loop ext cfg st
                  (bundle_measurements ext (res cfg) (measurements st)) True (lighthouses st)
                  locals_init
              in if \<not> refine_registration cfg then set_constant B_wTv L else L)"
  by (simp_all add: Solve_bootstrap_def Let_def)

lemma Solve_bootstrap_loop_live:
  "\<not> aborted (Solve_bootstrap ext cfg st) \<Longrightarrow>
   \<not> aborted (lighthouse_loop ext cfg st
      (bundle_measurements ext (res cfg) (measurements st)) True (lighthouses st) locals_init)"
  by (auto simp: Solve_bootstrap_problem Let_def aborted_set_constant split: if_splits)

lemma Solve_wTv:
  "wTv (snd (Solve ext cfg st)) =
     (if measurements st = [] \<or> aborted (Solve_bootstrap ext cfg st) then wTv st
      else solved ext (problem (Solve_bootstrap ext cfg st)) B_wTv (wTv st))"
  by (simp add: Solve_def Let_def emit_keeps ceres_Solve_def)

lemma Solve_lighthouses:
  "lighthouses (snd (Solve ext cfg st)) =
     (if measurements st = [] \<or> aborted (Solve_bootstrap ext cfg st) then lighthouses st
      else map (solved_lighthouse ext (problem (Solve_bootstrap ext cfg st))) (lighthouses st))"
  by (simp add: Solve_def Let_def emit_keeps ceres_Solve_def)

lemma ceres_Solve_keeps:
  "recording (fst (ceres_Solve ext loc st)) = recording st"
  "measurements (fst (ceres_Solve ext loc st)) = measurements st"
  "corrections (fst (ceres_Solve ext loc st)) = corrections st"
  "sent (fst (ceres_Solve ext loc st)) = sent st"
  by (simp_all add: ceres_Solve_def)

lemma Solve_keeps:
  "recording (snd (Solve ext cfg st)) = recording st"
  "measurements (snd (Solve ext cfg st)) = measurements st"
  "corrections (snd (Solve ext cfg st)) = corrections st"
  by (simp_all add: Solve_def Let_def emit_keeps ceres_Solve_keeps)

section \<open>C1: no measurements\<close>

text \<open>
  Claim C1. When the measurement set is empty, \<^verbatim>\<open>Solve\<close> returns false and leaves
  everything as it was: the lighthouses, the trackers, the registration, the recorded
  data and all that has been sent out.
\<close>

theorem Solve_without_measurements:
  assumes "measurements st = []"
  shows "Solve ext cfg st = (Returned False, st)"
  using assms by (simp add: Solve_def)

theorem Solve_without_measurements_witness:
  "measurements demo_idle = [] \<and> Solve demo_ext demo_cfg demo_idle = (Returned False, demo_idle)"
proof -
  have h: "measurements demo_idle = []" by (simp add: demo_idle_def)
  show ?thesis using h Solve_without_measurements [OF h, of demo_ext demo_cfg] by simp
qed

section \<open>C2: a frozen registration\<close>

text \<open>
  Claim C2. When \<^verbatim>\<open>refine_registration_\<close> is false, the registration \<^verbatim>\<open>wTv_\<close> is the
  same after \<^verbatim>\<open>Solve\<close> as before, whatever the measurements, the other settings and
  the values the optimiser would write. (When Ceres ends the process while the problem
  is built, \<^verbatim>\<open>wTv_\<close> has not been written to either.)
\<close>

theorem frozen_registration_unchanged:
  assumes "\<not> refine_registration cfg"
  shows "wTv (snd (Solve ext cfg st)) = wTv st"
proof (cases "aborted (Solve_bootstrap ext cfg st)")
  case True
  then show ?thesis by (simp add: Solve_wTv)
next
  case False
  with assms have "B_wTv \<in> set (constant_blocks (problem (Solve_bootstrap ext cfg st)))"
    by (simp add: Solve_bootstrap_problem Let_def constant_blocks_set_constant)
  then show ?thesis
    by (simp add: Solve_wTv solved_constant)
qed

theorem frozen_registration_unchanged_witness:
  "\<not> refine_registration (demo_cfg\<lparr>refine_registration := False\<rparr>) \<and>
   wTv (snd (Solve demo_ext (demo_cfg\<lparr>refine_registration := False\<rparr>) demo_session)) =
     [0, 0, 0, 0, 0, 0]"
proof -
  have h: "\<not> refine_registration (demo_cfg\<lparr>refine_registration := False\<rparr>)" by simp
  have w: "wTv demo_session = [0, 0, 0, 0, 0, 0]" by (simp add: demo_session_def demo_idle_def)
  show ?thesis using h frozen_registration_unchanged [OF h, of demo_ext demo_session] w by simp
qed

section \<open>C4: which light messages are kept\<close>






section \<open>C10: which corrections are kept\<close>

lemma set_map_assign: "set (map_assign k v al) \<subseteq> insert (k, v) (set al)"
  by (induction al) (auto split: if_splits)

lemma map_assign_mem: "(k, v) \<in> set (map_assign k v al)"
  by (induction al) auto

lemma store_corrections_origin:
  "e \<in> set (store_corrections cfg now n tfs cs) \<Longrightarrow>
     e \<in> set cs \<or> (snd e \<in> set tfs \<and> is_correction cfg (snd e))"
proof (induction tfs arbitrary: n cs)
  case Nil
  then show ?case by simp
next
  case (Cons tf tfs)
  show ?case
  proof (cases "is_correction cfg tf")
    case True
    with Cons.prems have "e \<in> set (store_corrections cfg now (Suc n) tfs (map_assign (now n) tf cs))"
      by simp
    from Cons.IH [OF this] show ?thesis
      using set_map_assign [of "now n" tf cs] True by auto
  next
    case False
    with Cons.prems have "e \<in> set (store_corrections cfg now n tfs cs)" by simp
    from Cons.IH [OF this] show ?thesis by auto
  qed
qed

lemma store_corrections_filter:
  "store_corrections cfg now n (filter (is_correction cfg) tfs) cs = store_corrections cfg now n tfs cs"
  by (induction tfs arbitrary: n cs) auto

text \<open>
  Claim C10. \<^verbatim>\<open>CorrectionCallback\<close> changes nothing when the node is not recording.
  Every correction it adds is a transform of the message whose parent frame is the world
  frame and whose child frame is the body frame, and the other transforms of the message
  have no effect: the callback does the same on the message with them left out.
\<close>

theorem corrections_only_body_in_world:
  "(\<not> recording s \<longrightarrow> CorrectionCallback cfg now msg s = s) \<and>
   (\<forall>e \<in> set (corrections (CorrectionCallback cfg now msg s)).
      e \<in> set (corrections s) \<or>
      (snd e \<in> set msg \<and> tf_frame_id (snd e) = frame_world cfg \<and>
       child_frame_id (snd e) = frame_body cfg)) \<and>
   CorrectionCallback cfg now (filter (is_correction cfg) msg) s = CorrectionCallback cfg now msg s"
proof (intro conjI ballI impI)
  assume "\<not> recording s"
  then show "CorrectionCallback cfg now msg s = s" by (simp add: CorrectionCallback_def)
next
  fix e assume e: "e \<in> set (corrections (CorrectionCallback cfg now msg s))"
  show "e \<in> set (corrections s) \<or>
      (snd e \<in> set msg \<and> tf_frame_id (snd e) = frame_world cfg \<and>
       child_frame_id (snd e) = frame_body cfg)"
  proof (cases "recording s")
    case True
    with e have "e \<in> set (store_corrections cfg now 0 msg (corrections s))"
      by (simp add: CorrectionCallback_def)
    from store_corrections_origin [OF this] show ?thesis by (auto simp: is_correction_def)
  next
    case False
    with e show ?thesis by (simp add: CorrectionCallback_def)
  qed
next
  show "CorrectionCallback cfg now (filter (is_correction cfg) msg) s = CorrectionCallback cfg now msg s"
    by (simp add: CorrectionCallback_def store_corrections_filter)
qed

theorem corrections_only_body_in_world_witness:
  "CorrectionCallback demo_cfg (ros_now demo_ext) demo_tfs demo_idle = demo_idle \<and>
   corrections (CorrectionCallback demo_cfg (ros_now demo_ext) demo_tfs demo_session) =
     [(100, demo_tfs ! 1)] \<and>
   child_frame_id (demo_tfs ! 1) = frame_body demo_cfg \<and>
   tf_frame_id (demo_tfs ! 1) = frame_world demo_cfg"
proof -
  have n: "\<not> recording demo_idle" by (simp add: demo_idle_def)
  have c: "corrections demo_session = []" by (simp add: demo_session_def demo_idle_def)
  have d: "corrections (CorrectionCallback demo_cfg (ros_now demo_ext) demo_tfs demo_session) =
     [(100, demo_tfs ! 1)]"
    by (simp add: CorrectionCallback_def demo_session_def demo_idle_def demo_tfs_def demo_cfg_def
        demo_ext_def is_correction_def)
  from corrections_only_body_in_world [of demo_idle demo_cfg "ros_now demo_ext" demo_tfs] n
  have 1: "CorrectionCallback demo_cfg (ros_now demo_ext) demo_tfs demo_idle = demo_idle" by blast
  from corrections_only_body_in_world [of demo_session demo_cfg "ros_now demo_ext" demo_tfs] c d
  have 2: "child_frame_id (demo_tfs ! 1) = frame_body demo_cfg \<and>
   tf_frame_id (demo_tfs ! 1) = frame_world demo_cfg" by simp
  from 1 2 d show ?thesis by simp
qed

section \<open>What one epoch adds to the problem\<close>

lemma length_obj_foldl:
  "length (fst (snd (foldl (sensor_step ext cfg b ls lh ts tr t) acc xs))) =
     length (fst (snd acc)) +
     length (filter (\<lambda>s. bucket b (ts, ls, t, s, 0) \<noteq> [] \<and> bucket b (ts, ls, t, s, 1) \<noteq> []) xs)"
  by (induction xs arbitrary: acc)
     (auto simp: sensor_step_def Mean_def Let_def split: option.splits)

lemma length_obj:
  "length (fst (snd (correspondences ext cfg b ls lh ts tr t))) =
     length (valid_sensors b ts ls t (unat (NUM_SENSORS cfg)))"
  by (simp add: correspondences_def valid_sensors_def length_obj_foldl)

lemma keys_map_assign: "map fst (map_assign k v al) = insert_key k (map fst al)"
  by (induction al) auto

lemma set_insert_key: "set (insert_key k ks) = insert k (set ks)"
  by (induction ks) auto

lemma insert_key_idem: "insert_key k (insert_key k ks) = insert_key k ks"
  by (induction ks) auto

lemma map_assign_twice: "map_assign k v (map_assign k u al) = map_assign k v al"
  by (induction al) auto

lemma keys_map_values: "map fst (map (\<lambda>(t, p). (t, f t p)) al) = map fst al"
  by (induction al) auto

lemma residual_blocks_link_motion:
  "residual_blocks (problem (link_motion ext t loc)) =
     residual_blocks (problem loc) @
       (case std_prev (map fst (wTb loc)) t of
           Some p \<Rightarrow> [MotionCost_block (pose_blocks p @ pose_blocks t)]
         | None \<Rightarrow>
             if prev_of_begin ext (map fst (wTb loc))
             then [MotionCost_block (map B_past_end [0, 1, 2, 3] @ pose_blocks t)] else [])"
  by (simp add: link_motion_def AddResidualBlock_def split: option.splits)

lemma pnp_calls_seed_epoch:
  "\<not> aborted loc \<Longrightarrow> pnp_calls (seed_epoch ext cfg st ls lh ts tr t grp RT loc) = pnp_calls loc"
  by (simp add: seed_epoch_live Let_def link_motion_keeps)

lemma keys_seed_epoch:
  "\<not> aborted loc \<Longrightarrow>
   map fst (wTb (seed_epoch ext cfg st ls lh ts tr t grp RT loc)) = insert_key t (map fst (wTb loc))"
  by (simp add: seed_epoch_live Let_def link_motion_keeps keys_map_assign insert_key_idem)

lemma residual_blocks_seed_epoch:
  "\<not> aborted loc \<Longrightarrow>
   residual_blocks (problem (seed_epoch ext cfg st ls lh ts tr t grp RT loc)) =
     residual_blocks (problem loc) @ [GroupCost_block grp (group_blocks (ls, ts, t))] @
     motion_added ext cfg t (insert_key t (map fst (wTb loc)))"
  by (simp add: seed_epoch_live Let_def residual_blocks_link_motion motion_added_def
      keys_map_assign insert_key_idem AddResidualBlock_def group_blocks_def)

lemma constant_blocks_seed_epoch:
  "\<not> aborted loc \<Longrightarrow>
   constant_blocks (problem (seed_epoch ext cfg st ls lh ts tr t grp RT loc)) =
     constant_blocks (problem loc) @ (if force2d cfg then [B_pos_z t, B_rot_xy t] else [])"
  by (simp add: seed_epoch_live Let_def link_motion_keeps AddResidualBlock_def)

text \<open>An epoch with fewer than four sensors seen on both axes leaves every variable as it
  was.\<close>

lemma epoch_step_few:
  assumes "length (valid_sensors b ts ls t (unat (NUM_SENSORS cfg))) < 4"
  shows "epoch_step ext cfg st b ls lh ts tr loc t = loc"
  using assms by (simp add: epoch_step_def Let_def length_obj)

text \<open>The residual blocks of an epoch, as long as the process has not been ended: the one
  of \<^verbatim>\<open>GroupCost\<close> when \<open>bootstrap_pose\<close> gives a pose, with the ones of \<^verbatim>\<open>MotionCost\<close>
  after it.\<close>

lemma residual_blocks_epoch_step:
  assumes "\<not> aborted loc"
  shows "residual_blocks (problem (epoch_step ext cfg st b ls lh ts tr loc t)) =
     residual_blocks (problem loc) @
       (case bootstrap_pose ext cfg st b ls lh ts tr t of
          None \<Rightarrow> []
        | Some p \<Rightarrow>
            GroupCost_block (fst (correspondences ext cfg b ls lh ts tr t)) (group_blocks (ls, ts, t)) #
            motion_added ext cfg t (insert_key t (map fst (wTb loc))))"
  using assms
  by (simp add: epoch_step_live bootstrap_pose_def Let_def residual_blocks_seed_epoch
      split: option.splits)

lemma parameter_blocks_epoch_step:
  "set (parameter_blocks (problem loc)) \<subseteq>
   set (parameter_blocks (problem (epoch_step ext cfg st b ls lh ts tr loc t)))"
proof (cases "aborted loc")
  case True
  then show ?thesis by (simp add: epoch_step_aborted)
next
  case False
  then show ?thesis by (auto simp: parameter_blocks_def residual_blocks_epoch_step)
qed

lemma parameter_blocks_epoch_seeded:
  assumes "\<not> aborted loc" and "bootstrap_pose ext cfg st b ls lh ts tr t \<noteq> None"
  shows "set (group_blocks (ls, ts, t)) \<subseteq>
         set (parameter_blocks (problem (epoch_step ext cfg st b ls lh ts tr loc t)))"
  using assms by (auto simp: parameter_blocks_def residual_blocks_epoch_step)

lemma parameter_blocks_epochs:
  "set (parameter_blocks (problem loc)) \<subseteq>
   set (parameter_blocks (problem (foldl (epoch_step ext cfg st b ls lh ts tr) loc es)))"
proof (induction es arbitrary: loc)
  case Nil
  show ?case by simp
next
  case (Cons e es)
  from parameter_blocks_epoch_step Cons.IH show ?case
    by (simp del: set_concat) (rule subset_trans)
qed

lemma parameter_blocks_epochs_seeded:
  assumes "\<not> aborted loc" and "t \<in> set es"
    and "bootstrap_pose ext cfg st b ls lh ts tr t \<noteq> None"
  shows "set (group_blocks (ls, ts, t)) \<subseteq>
         set (parameter_blocks (problem (foldl (epoch_step ext cfg st b ls lh ts tr) loc es)))"
  using assms(1,2)
proof (induction es arbitrary: loc)
  case Nil
  then show ?case by simp
next
  case (Cons e es)
  let ?s = "epoch_step ext cfg st b ls lh ts tr loc e"
  have live: "\<not> aborted ?s" using Cons.prems(1) by (simp add: aborted_epoch_step)
  show ?case
  proof (cases "t = e")
    case True
    have "set (group_blocks (ls, ts, t)) \<subseteq> set (parameter_blocks (problem ?s))"
      unfolding True [symmetric]
      using parameter_blocks_epoch_seeded [OF Cons.prems(1) assms(3)] by simp
    also have "\<dots> \<subseteq> set (parameter_blocks (problem
        (foldl (epoch_step ext cfg st b ls lh ts tr) ?s es)))"
      by (rule parameter_blocks_epochs)
    finally show ?thesis by simp
  next
    case False
    with Cons.prems(2) have "t \<in> set es" by simp
    from Cons.IH [OF live this] show ?thesis by simp
  qed
qed

section \<open>When Ceres lets the problem be built\<close>

text \<open>Ceres ends the process when a block is set constant that no residual block has
  brought into the problem. That does not happen when there is a lighthouse and a tracker
  and every lighthouse seeds a pose with every tracker in some epoch: then the blocks of
  the tracker, of the lighthouse and of the registration are in the problem by the time
  they are set constant.\<close>

lemma parameter_blocks_fix:
  "parameter_blocks (problem (fix_tracker cfg ts loc)) = parameter_blocks (problem loc)"
  "parameter_blocks (problem (fix_lighthouse cfg first ls loc)) = parameter_blocks (problem loc)"
  by (simp_all add: parameter_blocks_def fix_tracker_keeps fix_lighthouse_keeps)

lemma fix_tracker_live:
  assumes "\<not> aborted loc"
    and "B_bTh ts \<in> set (parameter_blocks (problem loc))"
    and "B_tTh ts \<in> set (parameter_blocks (problem loc))"
    and "B_sensors ts \<in> set (parameter_blocks (problem loc))"
  shows "\<not> aborted (fix_tracker cfg ts loc)"
  using assms
  by (simp add: fix_tracker_def Let_def aborted_set_constant parameter_blocks_set_constant)

lemma fix_lighthouse_live:
  assumes "\<not> aborted loc"
    and "B_vTl ls \<in> set (parameter_blocks (problem loc))"
    and "B_params ls \<in> set (parameter_blocks (problem loc))"
  shows "\<not> aborted (fix_lighthouse cfg first ls loc)"
  using assms
  by (simp add: fix_lighthouse_def Let_def aborted_set_constant parameter_blocks_set_constant)

lemma parameter_blocks_tracker_step:
  "set (parameter_blocks (problem loc)) \<subseteq>
   set (parameter_blocks (problem (tracker_step ext cfg st b ls lh loc tt)))"
  by (simp add: tracker_step_def parameter_blocks_fix parameter_blocks_epochs del: set_concat)

lemma tracker_step_seeded:
  assumes "\<not> aborted loc"
    and "\<exists>t \<in> set (epochs_of b (fst tt) ls).
           bootstrap_pose ext cfg st b ls lh (fst tt) (snd tt) t \<noteq> None"
  shows "\<not> aborted (tracker_step ext cfg st b ls lh loc tt) \<and>
         B_wTv \<in> set (parameter_blocks (problem (tracker_step ext cfg st b ls lh loc tt))) \<and>
         B_vTl ls \<in> set (parameter_blocks (problem (tracker_step ext cfg st b ls lh loc tt))) \<and>
         B_params ls \<in> set (parameter_blocks (problem (tracker_step ext cfg st b ls lh loc tt)))"
proof -
  let ?E = "foldl (epoch_step ext cfg st b ls lh (fst tt) (snd tt)) loc (epochs_of b (fst tt) ls)"
  from assms(2) obtain t where t: "t \<in> set (epochs_of b (fst tt) ls)"
    and p: "bootstrap_pose ext cfg st b ls lh (fst tt) (snd tt) t \<noteq> None" by blast
  have g: "set (group_blocks (ls, fst tt, t)) \<subseteq> set (parameter_blocks (problem ?E))"
    by (rule parameter_blocks_epochs_seeded [OF assms(1) t p])
  have live: "\<not> aborted ?E" using assms(1) by (simp add: epochs_aborted)
  from g have m: "B_wTv \<in> set (parameter_blocks (problem ?E))"
    "B_vTl ls \<in> set (parameter_blocks (problem ?E))"
    "B_params ls \<in> set (parameter_blocks (problem ?E))"
    "B_bTh (fst tt) \<in> set (parameter_blocks (problem ?E))"
    "B_tTh (fst tt) \<in> set (parameter_blocks (problem ?E))"
    "B_sensors (fst tt) \<in> set (parameter_blocks (problem ?E))"
    by (simp_all add: group_blocks_def del: set_concat)
  from fix_tracker_live [OF live m(4-6)] m(1-3) show ?thesis
    by (simp add: tracker_step_def parameter_blocks_fix del: set_concat)
qed

lemma trackers_seeded:
  assumes "\<not> aborted loc"
    and "\<forall>tt \<in> set tts. \<exists>t \<in> set (epochs_of b (fst tt) ls).
           bootstrap_pose ext cfg st b ls lh (fst tt) (snd tt) t \<noteq> None"
  shows "\<not> aborted (foldl (tracker_step ext cfg st b ls lh) loc tts) \<and>
         set (parameter_blocks (problem loc)) \<subseteq>
           set (parameter_blocks (problem (foldl (tracker_step ext cfg st b ls lh) loc tts))) \<and>
         (tts \<noteq> [] \<longrightarrow>
            B_wTv \<in> set (parameter_blocks (problem (foldl (tracker_step ext cfg st b ls lh) loc tts))) \<and>
            B_vTl ls \<in> set (parameter_blocks (problem (foldl (tracker_step ext cfg st b ls lh) loc tts))) \<and>
            B_params ls \<in> set (parameter_blocks (problem (foldl (tracker_step ext cfg st b ls lh) loc tts))))"
  using assms
proof (induction tts arbitrary: loc)
  case Nil
  then show ?case by simp
next
  case (Cons x xs)
  let ?s = "tracker_step ext cfg st b ls lh loc x"
  from Cons.prems(2) have x: "\<exists>t \<in> set (epochs_of b (fst x) ls).
      bootstrap_pose ext cfg st b ls lh (fst x) (snd x) t \<noteq> None"
    and xs: "\<forall>tt \<in> set xs. \<exists>t \<in> set (epochs_of b (fst tt) ls).
      bootstrap_pose ext cfg st b ls lh (fst tt) (snd tt) t \<noteq> None" by simp_all
  note s = tracker_step_seeded [OF Cons.prems(1) x]
  from s have live: "\<not> aborted ?s" by simp
  note ih = Cons.IH [OF live xs]
  have up: "set (parameter_blocks (problem loc)) \<subseteq> set (parameter_blocks (problem ?s))"
    by (rule parameter_blocks_tracker_step)
  from ih s up show ?case by (auto simp del: set_concat)
qed

lemma lighthouse_step_seeded:
  assumes "\<not> aborted loc" and "trackers st \<noteq> []"
    and "\<forall>tt \<in> set (trackers st). \<exists>t \<in> set (epochs_of b (fst tt) (fst lt)).
           bootstrap_pose ext cfg st b (fst lt) (snd lt) (fst tt) (snd tt) t \<noteq> None"
  shows "\<not> aborted (lighthouse_step ext cfg st b first loc lt) \<and>
         set (parameter_blocks (problem loc)) \<subseteq>
           set (parameter_blocks (problem (lighthouse_step ext cfg st b first loc lt))) \<and>
         B_wTv \<in> set (parameter_blocks (problem (lighthouse_step ext cfg st b first loc lt)))"
proof -
  note t = trackers_seeded [OF assms(1,3)]
  from t assms(2) fix_lighthouse_live [of _ "fst lt" cfg first]
  show ?thesis
    by (simp add: lighthouse_step_def parameter_blocks_fix del: set_concat)
qed

lemma lighthouse_loop_seeded:
  assumes "\<not> aborted loc" and "trackers st \<noteq> []"
    and "\<forall>lt \<in> set lts. \<forall>tt \<in> set (trackers st). \<exists>t \<in> set (epochs_of b (fst tt) (fst lt)).
           bootstrap_pose ext cfg st b (fst lt) (snd lt) (fst tt) (snd tt) t \<noteq> None"
  shows "\<not> aborted (lighthouse_loop ext cfg st b first lts loc) \<and>
         set (parameter_blocks (problem loc)) \<subseteq>
           set (parameter_blocks (problem (lighthouse_loop ext cfg st b first lts loc))) \<and>
         (lts \<noteq> [] \<longrightarrow>
            B_wTv \<in> set (parameter_blocks (problem (lighthouse_loop ext cfg st b first lts loc))))"
  using assms(1,3)
proof (induction lts arbitrary: first loc)
  case Nil
  then show ?case by simp
next
  case (Cons x xs)
  let ?s = "lighthouse_step ext cfg st b first loc x"
  from Cons.prems(2) have x: "\<forall>tt \<in> set (trackers st). \<exists>t \<in> set (epochs_of b (fst tt) (fst x)).
           bootstrap_pose ext cfg st b (fst x) (snd x) (fst tt) (snd tt) t \<noteq> None"
    and xs: "\<forall>lt \<in> set xs. \<forall>tt \<in> set (trackers st). \<exists>t \<in> set (epochs_of b (fst tt) (fst lt)).
           bootstrap_pose ext cfg st b (fst lt) (snd lt) (fst tt) (snd tt) t \<noteq> None"
    by simp_all
  note s = lighthouse_step_seeded [OF Cons.prems(1) assms(2) x, of first]
  from s have live: "\<not> aborted ?s" by simp
  note ih = Cons.IH [OF live xs, of False]
  from ih s show ?case by (auto simp del: set_concat)
qed

lemma Solve_bootstrap_live:
  assumes "lighthouses st \<noteq> []" and "trackers st \<noteq> []"
    and "\<forall>lt \<in> set (lighthouses st). \<forall>tt \<in> set (trackers st).
           \<exists>t \<in> set (epochs_of (bundle_measurements ext (res cfg) (measurements st)) (fst tt) (fst lt)).
             bootstrap_pose ext cfg st (bundle_measurements ext (res cfg) (measurements st))
               (fst lt) (snd lt) (fst tt) (snd tt) t \<noteq> None"
  shows "\<not> aborted (Solve_bootstrap ext cfg st)"
proof -
  have i: "\<not> aborted locals_init" by (simp add: locals_init_def)
  note l = lighthouse_loop_seeded [OF i assms(2,3), of True]
  with assms(1) show ?thesis
    by (simp add: Solve_bootstrap_problem Let_def aborted_set_constant del: set_concat)
qed

section \<open>What the loops of the bootstrap compute\<close>

text \<open>A quantity \<open>h\<close> of the variables of \<^verbatim>\<open>Solve\<close> that every epoch moves with the steps
  \<open>astep\<close> over \<open>g\<close>, and that setting blocks constant leaves alone, is moved by the
  loops over an initial part of the list of all lighthouses, trackers and epochs, in the
  order of the loops, and over the whole list unless Ceres has ended the process.\<close>

lemma bootstrap_simulation:
  assumes sim: "\<And>ls lh tt a t. \<not> aborted a \<Longrightarrow>
      h (epoch_step ext cfg st b ls lh (fst tt) (snd tt) a t) = foldl astep (h a) (g ls lh tt t)"
    and kept: "\<And>ts a. h (fix_tracker cfg ts a) = h a"
      "\<And>first ls a. h (fix_lighthouse cfg first ls a) = h a"
  shows "\<exists>n. h (lighthouse_loop ext cfg st b first lts loc) =
               foldl astep (h loc) (take n
                 (concat (map (\<lambda>lt. concat (map (\<lambda>tt. concat (map (g (fst lt) (snd lt) tt)
                    (epochs_of b (fst tt) (fst lt)))) (trackers st))) lts))) \<and>
             (\<not> aborted (lighthouse_loop ext cfg st b first lts loc) \<longrightarrow>
                length (concat (map (\<lambda>lt. concat (map (\<lambda>tt. concat (map (g (fst lt) (snd lt) tt)
                    (epochs_of b (fst tt) (fst lt)))) (trackers st))) lts)) \<le> n)"
proof (rule lighthouse_loop_simulation)
  fix first a lt
  assume live: "\<not> aborted (a::locals)"
  show "\<exists>n. h (lighthouse_step ext cfg st b first a lt) =
               foldl astep (h a) (take n
                 (concat (map (\<lambda>tt. concat (map (g (fst lt) (snd lt) tt)
                    (epochs_of b (fst tt) (fst lt)))) (trackers st)))) \<and>
             (\<not> aborted (lighthouse_step ext cfg st b first a lt) \<longrightarrow>
                length (concat (map (\<lambda>tt. concat (map (g (fst lt) (snd lt) tt)
                    (epochs_of b (fst tt) (fst lt)))) (trackers st))) \<le> n)"
  proof (rule lighthouse_step_simulation [OF live])
    fix a' tt
    assume live': "\<not> aborted (a'::locals)"
    show "h (tracker_step ext cfg st b (fst lt) (snd lt) a' tt) =
            foldl astep (h a') (concat (map (g (fst lt) (snd lt) tt) (epochs_of b (fst tt) (fst lt))))"
      by (rule tracker_step_simulation [OF live']) (simp_all add: sim kept)
  next
    fix a'
    show "h (fix_lighthouse cfg first (fst lt) a') = h a'" by (rule kept)
  qed
qed


section \<open>The small session: its bundle and its seeds\<close>

lemma demo_sensors: "unat (NUM_SENSORS demo_cfg) = 5"
  by (simp add: demo_cfg_def)

lemma upt_5: "[0..<5] = [0, 1, 2, 3, 4]"
  by (simp add: upt_rec)

lemma upt_6: "[0..<6] = [0, 1, 2, 3, 4, 5]"
  by (simp add: upt_rec)

lemma demo_epoch:
  "epoch demo_ext (1 / 8) (1 / 128) = 0" "epoch demo_ext (1 / 8) (1 / 64) = 0"
  "epoch demo_ext (1 / 8) (3 / 128) = 0" "epoch demo_ext (1 / 8) (1 / 32) = 0"
  "epoch demo_ext (1 / 8) (17 / 128) = 1 / 8" "epoch demo_ext (1 / 8) (9 / 64) = 1 / 8"
  "epoch demo_ext (1 / 8) (19 / 128) = 1 / 8" "epoch demo_ext (1 / 8) (5 / 32) = 1 / 8"
  by (simp_all add: epoch_def cpp_round_def demo_ext_def)

lemma demo_bundle:
  "bundle_measurements demo_ext (res demo_cfg) (measurements demo_session) =
     concat (map (\<lambda>t. concat (map (\<lambda>l. concat (map (\<lambda>a.
        map (\<lambda>s. ((''T'', l, t, s, a), [1 / 8])) [0, 1, 2, 3]) [0, 1])) [''A'', ''B''])) [0, 1 / 8])"
  by (simp add: bundle_measurements_def bundle_light_def light_key_def demo_epoch
      demo_session_def demo_light_def demo_cfg_def)

lemma demo_valid:
  "valid_sensors (bundle_measurements demo_ext (res demo_cfg) (measurements demo_session)) ''T'' ''A'' 0 5 = [0, 1, 2, 3]"
  "valid_sensors (bundle_measurements demo_ext (res demo_cfg) (measurements demo_session)) ''T'' ''A'' (1 / 8) 5 = [0, 1, 2, 3]"
  "valid_sensors (bundle_measurements demo_ext (res demo_cfg) (measurements demo_session)) ''T'' ''B'' 0 5 = [0, 1, 2, 3]"
  "valid_sensors (bundle_measurements demo_ext (res demo_cfg) (measurements demo_session)) ''T'' ''B'' (1 / 8) 5 = [0, 1, 2, 3]"
  unfolding demo_bundle
  by (simp_all add: valid_sensors_def bucket_def upt_5)

lemma demo_planar_simps:
  "res demo_planar = res demo_cfg" "unat (NUM_SENSORS demo_planar) = 5"
  "force2d demo_planar" "smoothing demo_planar = 10" "correct demo_planar = False"
  "refine_registration demo_planar" "refine_lighthouses demo_planar"
  "\<not> refine_extrinsics demo_planar" "\<not> refine_sensors demo_planar"
  "\<not> refine_head demo_planar" "\<not> refine_params demo_planar" "visualize demo_planar"
  by (simp_all add: demo_planar_def demo_cfg_def)

lemma demo_session_simps:
  "lighthouses demo_session =
     [(''A'', \<lparr>vTl = [0, 0, 0, 0, 0, 0], params = replicate 10 0, l_ready = True\<rparr>),
      (''B'', \<lparr>vTl = [1, 1, 1, 1, 1, 1], params = replicate 10 0, l_ready = True\<rparr>)]"
  "trackers demo_session =
     [(''T'', \<lparr>bTh = replicate 6 0, tTh = replicate 6 0, sensors = replicate 30 0,
              t_ready = True\<rparr>)]"
  "wTv demo_session = [0, 0, 0, 0, 0, 0]"
  by (simp_all add: demo_session_def demo_idle_def)

lemma demo_epochs:
  "epochs_of (bundle_measurements demo_ext (res demo_cfg) (measurements demo_session)) ''T'' ''A'' = [0, 1 / 8]"
  "epochs_of (bundle_measurements demo_ext (res demo_cfg) (measurements demo_session)) ''T'' ''B'' = [0, 1 / 8]"
  unfolding demo_bundle by (simp_all add: epochs_of_def)

lemma demo_correspondences:
  assumes "unat (NUM_SENSORS cfg) = 5" and "l = ''A'' \<or> l = ''B''" and "t = 0 \<or> t = 1 / 8"
  shows "length (fst (snd (correspondences demo_ext cfg
      (bundle_measurements demo_ext (res demo_cfg) (measurements demo_session)) l lh ''T'' tr t))) = 4"
  using assms(2,3) by (elim disjE; hypsubst; simp add: length_obj assms(1) demo_valid)

lemma demo_bootstrap_pose:
  assumes "unat (NUM_SENSORS cfg) = 5" and "l = ''A'' \<or> l = ''B''" and "t = 0 \<or> t = 1 / 8"
  shows "bootstrap_pose demo_ext cfg st
      (bundle_measurements demo_ext (res demo_cfg) (measurements demo_session)) l lh ''T'' tr t =
      Some (map (\<lambda>i. vTl lh ! i + real i) [0, 1, 2, 3, 4, 5])"
proof -
  have "solvePnPRansac demo_ext obj img z = Some ([0, 0, 0], [0, 0, 1])" for obj img z
    by (simp add: demo_ext_def)
  moreover have "seed_pose demo_ext v l RT t b = (\<lambda>i. l ! i + real i)" for v l RT t b
    by (simp add: demo_ext_def)
  ultimately show ?thesis
    by (simp add: bootstrap_pose_def Let_def demo_correspondences [OF assms] upt_6)
qed

lemma demo_seeds:
  assumes "unat (NUM_SENSORS cfg) = 5" and "res cfg = res demo_cfg"
  shows "seeds demo_ext cfg demo_session =
     [(0, [0, 1, 2, 3, 4, 5]), (1 / 8, [0, 1, 2, 3, 4, 5]),
      (0, [1, 2, 3, 4, 5, 6]), (1 / 8, [1, 2, 3, 4, 5, 6])]"
  by (simp add: seeds_def epoch_seed_def Let_def assms demo_session_simps demo_epochs
      demo_bootstrap_pose)

text \<open>In the small session both lighthouses seed poses with the tracker, so Ceres lets
  the problem be built, whatever is refined.\<close>

lemma demo_live:
  assumes "unat (NUM_SENSORS cfg) = 5" and "res cfg = res demo_cfg"
  shows "\<not> aborted (Solve_bootstrap demo_ext cfg demo_session)"
proof (rule Solve_bootstrap_live)
  show "lighthouses demo_session \<noteq> []" "trackers demo_session \<noteq> []"
    by (simp_all add: demo_session_simps)
  show "\<forall>lt \<in> set (lighthouses demo_session). \<forall>tt \<in> set (trackers demo_session).
           \<exists>t \<in> set (epochs_of (bundle_measurements demo_ext (res cfg) (measurements demo_session))
                      (fst tt) (fst lt)).
             bootstrap_pose demo_ext cfg demo_session
               (bundle_measurements demo_ext (res cfg) (measurements demo_session))
               (fst lt) (snd lt) (fst tt) (snd tt) t \<noteq> None"
    by (auto simp: assms demo_session_simps demo_epochs demo_bootstrap_pose)
qed

section \<open>C3: the lighthouse poses held constant\<close>

lemma vTl_fixed_set_constant:
  "vTl_fixed (problem (set_constant b loc)) =
     vTl_fixed (problem loc) @
       (if aborted (set_constant b loc) then [] else (case b of B_vTl l \<Rightarrow> [l] | _ \<Rightarrow> []))"
  by (simp add: vTl_fixed_def constant_blocks_set_constant)

lemma vTl_fixed_epoch_step:
  "vTl_fixed (problem (epoch_step ext cfg st b ls lh ts tr loc t)) = vTl_fixed (problem loc)"
proof (cases "aborted loc")
  case True
  then show ?thesis by (simp add: epoch_step_aborted)
next
  case False
  then show ?thesis
    by (auto simp: epoch_step_live Let_def vTl_fixed_def constant_blocks_seed_epoch
        split: option.splits)
qed

lemma vTl_fixed_tracker_step:
  "vTl_fixed (problem (tracker_step ext cfg st b ls lh loc tt)) = vTl_fixed (problem loc)"
proof -
  have "vTl_fixed (problem (fix_tracker cfg ts a)) = vTl_fixed (problem a)" for ts a
    by (simp add: fix_tracker_def Let_def vTl_fixed_set_constant)
  then show ?thesis
    by (simp add: tracker_step_def
        foldl_keeps [where f = "\<lambda>l. vTl_fixed (problem l)", OF vTl_fixed_epoch_step])
qed

lemma vTl_fixed_lighthouse_step:
  "\<exists>n. vTl_fixed (problem (lighthouse_step ext cfg st b first loc lt)) =
         vTl_fixed (problem loc) @
           take n (if \<not> refine_lighthouses cfg \<or> first then [fst lt] else []) \<and>
       (\<not> aborted (lighthouse_step ext cfg st b first loc lt) \<longrightarrow>
          length (if \<not> refine_lighthouses cfg \<or> first then [fst lt] else []) \<le> n)"
proof -
  let ?T = "foldl (tracker_step ext cfg st b (fst lt) (snd lt)) loc (trackers st)"
  let ?V = "set_constant (B_vTl (fst lt)) ?T"
  have T: "vTl_fixed (problem ?T) = vTl_fixed (problem loc)"
    by (rule foldl_keeps [where f = "\<lambda>l. vTl_fixed (problem l)"]) (rule vTl_fixed_tracker_step)
  show ?thesis
  proof (cases "\<not> refine_lighthouses cfg \<or> first")
    case False
    then show ?thesis
      by (intro exI [of _ 0])
         (simp add: lighthouse_step_def fix_lighthouse_def Let_def vTl_fixed_set_constant T)
  next
    case True
    have a: "aborted ?V \<Longrightarrow> aborted (lighthouse_step ext cfg st b first loc lt)"
      using True by (simp add: lighthouse_step_def fix_lighthouse_def Let_def set_constant_aborted)
    have v: "vTl_fixed (problem (lighthouse_step ext cfg st b first loc lt)) =
        vTl_fixed (problem loc) @ (if aborted ?V then [] else [fst lt])"
      using True
      by (simp add: lighthouse_step_def fix_lighthouse_def Let_def vTl_fixed_set_constant T)
    from a v True show ?thesis
      by (intro exI [of _ "if aborted ?V then 0 else 1"]) auto
  qed
qed

lemma vTl_fixed_lighthouse_loop:
  "\<exists>n. vTl_fixed (problem (lighthouse_loop ext cfg st b first lts loc)) =
         vTl_fixed (problem loc) @
           take n (if \<not> refine_lighthouses cfg then map fst lts
                   else if first then take 1 (map fst lts) else []) \<and>
       (\<not> aborted (lighthouse_loop ext cfg st b first lts loc) \<longrightarrow>
          length (if \<not> refine_lighthouses cfg then map fst lts
                  else if first then take 1 (map fst lts) else []) \<le> n)"
proof (induction lts arbitrary: first loc)
  case Nil
  show ?case by (intro exI [of _ 0]) simp
next
  case (Cons x xs)
  let ?s = "lighthouse_step ext cfg st b first loc x"
  let ?e = "if \<not> refine_lighthouses cfg \<or> first then [fst x] else []"
  let ?r = "if \<not> refine_lighthouses cfg then map fst xs else []"
  have split: "(if \<not> refine_lighthouses cfg then map fst (x # xs)
                else if first then take 1 (map fst (x # xs)) else []) = ?e @ ?r"
    by simp
  from vTl_fixed_lighthouse_step [of ext cfg st b first loc x] obtain n1 where
    n1: "vTl_fixed (problem ?s) = vTl_fixed (problem loc) @ take n1 ?e"
    and l1: "\<not> aborted ?s \<Longrightarrow> length ?e \<le> n1" by blast
  show ?case
  proof (cases "aborted ?s")
    case True
    then have e: "lighthouse_loop ext cfg st b first (x # xs) loc = ?s"
      by (simp add: lighthouse_loop_aborted)
    have "take (min n1 (length ?e)) (?e @ ?r) = take n1 ?e"
      by (cases "n1 \<le> length ?e") (simp_all add: min_def)
    with n1 e True show ?thesis
      unfolding split by (intro exI [of _ "min n1 (length ?e)"]) simp
  next
    case False
    have "\<exists>n. vTl_fixed (problem (lighthouse_loop ext cfg st b False xs ?s)) =
             vTl_fixed (problem ?s) @ take n ?r \<and>
           (\<not> aborted (lighthouse_loop ext cfg st b False xs ?s) \<longrightarrow> length ?r \<le> n)"
      using Cons.IH [of False ?s] by (cases "refine_lighthouses cfg") simp_all
    then obtain n2 where
      n2: "vTl_fixed (problem (lighthouse_loop ext cfg st b False xs ?s)) =
             vTl_fixed (problem ?s) @ take n2 ?r"
      and l2: "\<not> aborted (lighthouse_loop ext cfg st b False xs ?s) \<Longrightarrow> length ?r \<le> n2"
      by blast
    from l1 [OF False] n1 have f: "vTl_fixed (problem ?s) = vTl_fixed (problem loc) @ ?e"
      by simp
    show ?thesis
      unfolding split using n2 l2 f by (intro exI [of _ "length ?e + n2"]) simp
  qed
qed

lemma vTl_fixed_Solve_bootstrap:
  "\<exists>n. vTl_fixed (problem (Solve_bootstrap ext cfg st)) =
         take n (if refine_lighthouses cfg then take 1 (map fst (lighthouses st))
                 else map fst (lighthouses st)) \<and>
       (\<not> aborted (Solve_bootstrap ext cfg st) \<longrightarrow>
          length (if refine_lighthouses cfg then take 1 (map fst (lighthouses st))
                  else map fst (lighthouses st)) \<le> n)"
proof -
  let ?L = "lighthouse_loop ext cfg st (bundle_measurements ext (res cfg) (measurements st)) True
              (lighthouses st) locals_init"
  have i: "vTl_fixed (problem locals_init) = []"
    by (simp add: vTl_fixed_def locals_init_def)
  have p: "vTl_fixed (problem (Solve_bootstrap ext cfg st)) = vTl_fixed (problem ?L)"
    by (simp add: Solve_bootstrap_problem Let_def vTl_fixed_set_constant)
  from vTl_fixed_lighthouse_loop [of ext cfg st
      "bundle_measurements ext (res cfg) (measurements st)" True "lighthouses st" locals_init]
  obtain n where
    n: "vTl_fixed (problem ?L) =
          vTl_fixed (problem locals_init) @
            take n (if \<not> refine_lighthouses cfg then map fst (lighthouses st)
                    else if True then take 1 (map fst (lighthouses st)) else [])"
    and l: "\<not> aborted ?L \<Longrightarrow>
          length (if \<not> refine_lighthouses cfg then map fst (lighthouses st)
                  else if True then take 1 (map fst (lighthouses st)) else []) \<le> n"
    by blast
  from n l Solve_bootstrap_loop_live [of ext cfg st]
  show ?thesis unfolding p i by (intro exI [of _ n]) (auto split: if_splits)
qed

lemma vTl_fixed_iff: "l \<in> set (vTl_fixed pr) \<longleftrightarrow> B_vTl l \<in> set (constant_blocks pr)"
  by (auto simp: vTl_fixed_def split: block.splits)

text \<open>
  Claim C3, amended. The pose block of the first lighthouse of the map is held constant in
  every solve, whatever \<^verbatim>\<open>refine_lighthouses_\<close> is, and its six pose parameters are the
  same after \<^verbatim>\<open>Solve\<close> as before. When \<^verbatim>\<open>refine_lighthouses_\<close> is true it is the only
  lighthouse pose held constant; when the flag is false the pose of every lighthouse is
  held constant. A solve is a run of \<^verbatim>\<open>Solve\<close> that reaches \<^verbatim>\<open>ceres::Solve\<close>; in a run
  that Ceres ends before, the lighthouse poses set constant by then are an initial part
  of these, and no pose has been written to.
\<close>

theorem first_lighthouse_fixed:
  "(\<not> aborted (Solve_bootstrap ext cfg st) \<longrightarrow>
      vTl_fixed (problem (Solve_bootstrap ext cfg st)) =
        (if refine_lighthouses cfg then take 1 (map fst (lighthouses st))
         else map fst (lighthouses st))) \<and>
   (\<exists>n. vTl_fixed (problem (Solve_bootstrap ext cfg st)) =
      take n (if refine_lighthouses cfg then take 1 (map fst (lighthouses st))
              else map fst (lighthouses st))) \<and>
   (lighthouses st \<noteq> [] \<longrightarrow>
      fst (hd (lighthouses (snd (Solve ext cfg st)))) = fst (hd (lighthouses st)) \<and>
      vTl (snd (hd (lighthouses (snd (Solve ext cfg st))))) = vTl (snd (hd (lighthouses st))))"
proof -
  let ?E = "if refine_lighthouses cfg then take 1 (map fst (lighthouses st))
            else map fst (lighthouses st)"
  from vTl_fixed_Solve_bootstrap [of ext cfg st] obtain n where
    n: "vTl_fixed (problem (Solve_bootstrap ext cfg st)) = take n ?E"
    and l: "\<not> aborted (Solve_bootstrap ext cfg st) \<Longrightarrow> length ?E \<le> n" by blast
  have all: "vTl_fixed (problem (Solve_bootstrap ext cfg st)) = ?E"
    if "\<not> aborted (Solve_bootstrap ext cfg st)"
    using n l [OF that] by simp
  have part: "\<exists>n. vTl_fixed (problem (Solve_bootstrap ext cfg st)) = take n ?E"
    using n by blast
  have first: "fst (hd (lighthouses (snd (Solve ext cfg st)))) = fst (hd (lighthouses st)) \<and>
      vTl (snd (hd (lighthouses (snd (Solve ext cfg st))))) = vTl (snd (hd (lighthouses st)))"
    if ne: "lighthouses st \<noteq> []"
  proof (cases "measurements st = [] \<or> aborted (Solve_bootstrap ext cfg st)")
    case True
    then show ?thesis by (simp add: Solve_lighthouses)
  next
    case False
    from ne obtain l lh lts where ls: "lighthouses st = (l, lh) # lts"
      by (cases "lighthouses st") auto
    from False all ls have "l \<in> set (vTl_fixed (problem (Solve_bootstrap ext cfg st)))"
      by simp
    then have c: "B_vTl l \<in> set (constant_blocks (problem (Solve_bootstrap ext cfg st)))"
      by (simp add: vTl_fixed_iff)
    from False ls c show ?thesis
      by (simp add: Solve_lighthouses solved_lighthouse_def solved_constant)
  qed
  from all part first show ?thesis by blast
qed

theorem first_lighthouse_fixed_witness:
  "lighthouses demo_session \<noteq> [] \<and>
   \<not> aborted (Solve_bootstrap demo_ext (demo_cfg\<lparr>refine_lighthouses := True\<rparr>) demo_session) \<and>
   vTl_fixed (problem (Solve_bootstrap demo_ext (demo_cfg\<lparr>refine_lighthouses := True\<rparr>) demo_session)) = [''A''] \<and>
   vTl (snd (hd (lighthouses (snd (Solve demo_ext (demo_cfg\<lparr>refine_lighthouses := True\<rparr>) demo_session))))) =
     [0, 0, 0, 0, 0, 0]"
proof -
  have a: "\<not> aborted (Solve_bootstrap demo_ext (demo_cfg\<lparr>refine_lighthouses := True\<rparr>) demo_session)"
    by (rule demo_live) (simp_all add: demo_cfg_def)
  show ?thesis
    using first_lighthouse_fixed [of demo_ext "demo_cfg\<lparr>refine_lighthouses := True\<rparr>" demo_session] a
    by (simp add: demo_session_simps)
qed

text \<open>The claim as it was stated has exactly one lighthouse pose held constant whatever
  the flag is. With the flag off and two lighthouses, both poses are held constant.\<close>

theorem first_lighthouse_fixed_counterexample:
  "\<not> refine_lighthouses demo_cfg \<and>
   \<not> aborted (Solve_bootstrap demo_ext demo_cfg demo_session) \<and>
   vTl_fixed (problem (Solve_bootstrap demo_ext demo_cfg demo_session)) = [''A'', ''B'']"
proof -
  have a: "\<not> aborted (Solve_bootstrap demo_ext demo_cfg demo_session)"
    by (rule demo_live) (simp_all add: demo_cfg_def)
  have r: "\<not> refine_lighthouses demo_cfg" by (simp add: demo_cfg_def)
  from vTl_fixed_Solve_bootstrap [of demo_ext demo_cfg demo_session] a r
  show ?thesis by (auto simp: demo_session_simps)
qed

section \<open>The poses seeded by the bootstrap and the links between them\<close>

lemma six_elements:
  assumes "length p = 6"
  obtains a b c d e f where "p = [a, b, c, d, e, f]"
proof -
  from assms obtain a p1 where "p = a # p1" "length p1 = 5" by (cases p) auto
  moreover then obtain b p2 where "p1 = b # p2" "length p2 = 4" by (cases p1) auto
  moreover then obtain c p3 where "p2 = c # p3" "length p3 = 3" by (cases p2) auto
  moreover then obtain d p4 where "p3 = d # p4" "length p4 = 2" by (cases p3) auto
  moreover then obtain e p5 where "p4 = e # p5" "length p5 = 1" by (cases p4) auto
  moreover then obtain f where "p5 = [f]" by (cases p5) auto
  ultimately show ?thesis using that by blast
qed

lemma foldl_append_map: "foldl (\<lambda>l y. l @ [f y]) l ys = l @ map f ys"
  by (induction ys arbitrary: l) simp_all

lemma fed_seed_epoch:
  "\<not> aborted loc \<Longrightarrow>
   fed (height (seed_epoch ext cfg st ls lh ts tr t grp RT loc)) =
     fed (height loc) @ [map (seed_pose ext (wTv st) (vTl lh) RT (tTh tr) (bTh tr)) [0..<6] ! 2]"
  by (simp add: seed_epoch_live Let_def link_motion_keeps Feed_def)

lemma fed_epoch_step:
  "\<not> aborted loc \<Longrightarrow>
   fed (height (epoch_step ext cfg st b ls lh ts tr loc t)) =
     fed (height loc) @ map (\<lambda>tp. snd tp ! 2) (epoch_seed ext cfg st b ls lh ts tr t)"
  by (simp add: epoch_step_live bootstrap_pose_def epoch_seed_def Let_def fed_seed_epoch
      split: option.splits)

lemma wTb_seed_epoch:
  "\<not> aborted loc \<Longrightarrow>
   wTb (seed_epoch ext cfg st ls lh ts tr t grp RT loc) =
     assign_seed cfg (wTb loc)
       (t, map (seed_pose ext (wTv st) (vTl lh) RT (tTh tr) (bTh tr)) [0..<6])"
  by (simp add: seed_epoch_live Let_def link_motion_keeps map_assign_twice assign_seed_def)

lemma wTb_epoch_step:
  "\<not> aborted loc \<Longrightarrow>
   wTb (epoch_step ext cfg st b ls lh ts tr loc t) =
     foldl (assign_seed cfg) (wTb loc) (epoch_seed ext cfg st b ls lh ts tr t)"
  by (simp add: epoch_step_live bootstrap_pose_def epoch_seed_def Let_def wTb_seed_epoch
      split: option.splits)

lemma links_seed_epoch:
  "\<not> aborted loc \<Longrightarrow>
   links (seed_epoch ext cfg st ls lh ts tr t grp RT loc) = link_step ext cfg (links loc) (t, p)"
proof -
  have "filter is_motion (motion_added ext cfg t ks) = motion_added ext cfg t ks" for ks
    by (simp add: motion_added_def split: option.splits)
  then show "\<not> aborted loc \<Longrightarrow> ?thesis"
    by (simp add: links_def link_step_def motion_blocks_def keys_seed_epoch
        residual_blocks_seed_epoch)
qed

lemma links_epoch_step:
  "\<not> aborted loc \<Longrightarrow>
   links (epoch_step ext cfg st b ls lh ts tr loc t) =
     foldl (link_step ext cfg) (links loc) (epoch_seed ext cfg st b ls lh ts tr t)"
proof -
  have "links (l\<lparr>count_obs := c, pnp_calls := k\<rparr>) = links l" for l c k
    by (simp add: links_def)
  then show "\<not> aborted loc \<Longrightarrow> ?thesis"
    by (simp add: epoch_step_live bootstrap_pose_def epoch_seed_def Let_def links_seed_epoch
      split: option.splits)
qed

lemma links_fix:
  "links (fix_tracker cfg ts loc) = links loc"
  "links (fix_lighthouse cfg first ls loc) = links loc"
  "links (set_constant b loc) = links loc"
  by (simp_all add: links_def motion_blocks_def fix_tracker_keeps fix_lighthouse_keeps
      set_constant_keeps)

text \<open>The seeds gone through when \<^verbatim>\<open>ceres::Solve\<close> is called or the process is ended:
  an initial part of \<open>seeds\<close>, and all of them in the first case. The keys of \<^verbatim>\<open>wTb\<close>
  and the residual blocks of \<^verbatim>\<open>MotionCost\<close> are those that these seeds give.\<close>

lemma links_Solve_bootstrap:
  "\<exists>n. links (Solve_bootstrap ext cfg st) =
         foldl (link_step ext cfg) ([], []) (take n (seeds ext cfg st)) \<and>
       (\<not> aborted (Solve_bootstrap ext cfg st) \<longrightarrow> length (seeds ext cfg st) \<le> n)"
proof -
  let ?b = "bundle_measurements ext (res cfg) (measurements st)"
  let ?L = "lighthouse_loop ext cfg st ?b True (lighthouses st) locals_init"
  have e: "links (Solve_bootstrap ext cfg st) = links ?L"
    by (simp add: Solve_bootstrap_def Let_def links_def motion_blocks_def
        set_constant_keeps split_def)
  have i: "links locals_init = ([], [])"
    by (simp add: links_def locals_init_def motion_blocks_def)
  have "\<exists>n. links ?L =
         foldl (link_step ext cfg) (links locals_init) (take n
           (concat (map (\<lambda>lt. concat (map (\<lambda>tt. concat (map
              (epoch_seed ext cfg st ?b (fst lt) (snd lt) (fst tt) (snd tt))
              (epochs_of ?b (fst tt) (fst lt)))) (trackers st))) (lighthouses st)))) \<and>
       (\<not> aborted ?L \<longrightarrow>
          length (concat (map (\<lambda>lt. concat (map (\<lambda>tt. concat (map
              (epoch_seed ext cfg st ?b (fst lt) (snd lt) (fst tt) (snd tt))
              (epochs_of ?b (fst tt) (fst lt)))) (trackers st))) (lighthouses st))) \<le> n)"
    by (rule bootstrap_simulation
          [where g = "\<lambda>ls lh tt. epoch_seed ext cfg st ?b ls lh (fst tt) (snd tt)"])
       (simp_all add: links_epoch_step links_fix)
  with Solve_bootstrap_loop_live [of ext cfg st] show ?thesis
    unfolding e i seeds_def Let_def by blast
qed

lemma seeds_Solve_bootstrap:
  assumes "\<not> aborted (Solve_bootstrap ext cfg st)"
  shows "links (Solve_bootstrap ext cfg st) = foldl (link_step ext cfg) ([], []) (seeds ext cfg st)"
    and "fed (height (Solve_bootstrap ext cfg st)) = seeded_heights ext cfg st"
    and "wTb (Solve_bootstrap ext cfg st) =
     (if force2d cfg
      then map (\<lambda>(t, p). (t, p[2 := sum_list (seeded_heights ext cfg st) /
                                       real (length (seeded_heights ext cfg st))]))
             (foldl (assign_seed cfg) [] (seeds ext cfg st))
      else foldl (assign_seed cfg) [] (seeds ext cfg st))"
proof -
  let ?b = "bundle_measurements ext (res cfg) (measurements st)"
  let ?L = "lighthouse_loop ext cfg st ?b True (lighthouses st) locals_init"
  let ?S = "concat (map (\<lambda>lt. concat (map (\<lambda>tt. concat (map
              (epoch_seed ext cfg st ?b (fst lt) (snd lt) (fst tt) (snd tt))
              (epochs_of ?b (fst tt) (fst lt)))) (trackers st))) (lighthouses st))"
  have S: "seeds ext cfg st = ?S" by (simp add: seeds_def Let_def)
  from assms have live: "\<not> aborted ?L" by (rule Solve_bootstrap_loop_live)
  from links_Solve_bootstrap [of ext cfg st] assms
  show "links (Solve_bootstrap ext cfg st) = foldl (link_step ext cfg) ([], []) (seeds ext cfg st)"
    by auto
  have "\<exists>n. fed (height ?L) =
         foldl (\<lambda>l tp. l @ [snd tp ! 2]) (fed (height locals_init)) (take n ?S) \<and>
       (\<not> aborted ?L \<longrightarrow> length ?S \<le> n)"
    by (rule bootstrap_simulation
          [where g = "\<lambda>ls lh tt. epoch_seed ext cfg st ?b ls lh (fst tt) (snd tt)"
             and h = "\<lambda>l. fed (height l)"])
       (simp_all add: fed_epoch_step foldl_append_map fix_tracker_keeps fix_lighthouse_keeps)
  with live have f: "fed (height ?L) = map (\<lambda>tp. snd tp ! 2) ?S"
    by (auto simp: foldl_append_map locals_init_def)
  have h: "height (Solve_bootstrap ext cfg st) = height ?L"
    by (simp add: Solve_bootstrap_def Let_def set_constant_keeps)
  from f show fed: "fed (height (Solve_bootstrap ext cfg st)) = seeded_heights ext cfg st"
    by (simp add: h seeded_heights_def S)
  have "\<exists>n. wTb ?L = foldl (assign_seed cfg) (wTb locals_init) (take n ?S) \<and>
       (\<not> aborted ?L \<longrightarrow> length ?S \<le> n)"
    by (rule bootstrap_simulation
          [where g = "\<lambda>ls lh tt. epoch_seed ext cfg st ?b ls lh (fst tt) (snd tt)"])
       (simp_all add: wTb_epoch_step fix_tracker_keeps fix_lighthouse_keeps)
  with live have w: "wTb ?L = foldl (assign_seed cfg) [] ?S"
    by (auto simp: locals_init_def)
  have m: "Statistic_Mean (height ?L) =
      sum_list (seeded_heights ext cfg st) / real (length (seeded_heights ext cfg st))"
    using fed by (simp add: Statistic_Mean_def h)
  have a: "aborted (if \<not> refine_registration cfg then set_constant B_wTv ?L else ?L) = False"
    using assms by (simp add: Solve_bootstrap_problem Let_def)
  show "wTb (Solve_bootstrap ext cfg st) =
     (if force2d cfg
      then map (\<lambda>(t, p). (t, p[2 := sum_list (seeded_heights ext cfg st) /
                                       real (length (seeded_heights ext cfg st))]))
             (foldl (assign_seed cfg) [] (seeds ext cfg st))
      else foldl (assign_seed cfg) [] (seeds ext cfg st))"
    using a by (simp add: Solve_bootstrap_def Let_def set_constant_keeps w m S)
qed

lemma Solve_poses_keys:
  "map fst (Solve_poses ext cfg st) = fst (links (Solve_bootstrap ext cfg st))"
  by (simp add: Solve_poses_def ceres_Solve_def links_def split_def)

lemma demo_links:
  assumes "unat (NUM_SENSORS cfg) = 5" and "res cfg = res demo_cfg" and "smoothing cfg = 10"
  shows "links (Solve_bootstrap demo_ext cfg demo_session) =
     ([0, 1 / 8],
      [MotionCost_block (pose_blocks 0 @ pose_blocks (1 / 8)),
       MotionCost_block (pose_blocks 0 @ pose_blocks (1 / 8))])"
proof -
  have "prev_of_begin demo_ext ks = False" for ks by (simp add: demo_ext_def)
  then show ?thesis
    by (simp add: seeds_Solve_bootstrap(1) [OF demo_live [OF assms(1,2)]] demo_seeds assms
        link_step_def motion_added_def)
qed

section \<open>C7: the planar constraint\<close>

lemma planar_seed_epoch:
  assumes "force2d cfg" and "planar loc" and "\<not> aborted loc"
  shows "planar (seed_epoch ext cfg st ls lh ts tr t grp RT loc)"
proof -
  let ?pose = "map (seed_pose ext (wTv st) (vTl lh) RT (tTh tr) (bTh tr)) [0..<6]"
  let ?s = "seed_epoch ext cfg st ls lh ts tr t grp RT loc"
  have w: "wTb ?s = map_assign t (?pose[3 := 0, 4 := 0]) (wTb loc)"
    using assms(1,3) by (simp add: seed_epoch_live Let_def link_motion_keeps map_assign_twice)
  have c: "constant_blocks (problem ?s) = constant_blocks (problem loc) @ [B_pos_z t, B_rot_xy t]"
    using assms(1,3) by (simp add: constant_blocks_seed_epoch)
  have s: "set (wTb ?s) \<subseteq> insert (t, ?pose[3 := 0, 4 := 0]) (set (wTb loc))"
    unfolding w by (rule set_map_assign)
  have p: "length (?pose[3 := 0, 4 := 0]) = 6 \<and> ?pose[3 := 0, 4 := 0] ! 3 = 0 \<and>
           ?pose[3 := 0, 4 := 0] ! 4 = 0"
    by (simp add: upt_6)
  show ?thesis
    unfolding planar_def c
  proof
    fix tp assume "tp \<in> set (wTb ?s)"
    with s have "tp = (t, ?pose[3 := 0, 4 := 0]) \<or> tp \<in> set (wTb loc)" by blast
    then show "length (snd tp) = 6 \<and> snd tp ! 3 = 0 \<and> snd tp ! 4 = 0 \<and>
        B_pos_z (fst tp) \<in> set (constant_blocks (problem loc) @ [B_pos_z t, B_rot_xy t]) \<and>
        B_rot_xy (fst tp) \<in> set (constant_blocks (problem loc) @ [B_pos_z t, B_rot_xy t])"
    proof
      assume "tp = (t, ?pose[3 := 0, 4 := 0])"
      then show ?thesis using p by simp
    next
      assume "tp \<in> set (wTb loc)"
      with assms(2) show ?thesis by (auto simp: planar_def)
    qed
  qed
qed

lemma planar_more_constant:
  assumes "planar loc" and "wTb loc' = wTb loc"
    and "set (constant_blocks (problem loc)) \<subseteq> set (constant_blocks (problem loc'))"
  shows "planar loc'"
  using assms by (auto simp: planar_def)

lemma planar_set_constant: "planar loc \<Longrightarrow> planar (set_constant b loc)"
  by (erule planar_more_constant) (auto simp: set_constant_keeps constant_blocks_set_constant)

lemma planar_epoch_step:
  assumes "force2d cfg" and "planar loc"
  shows "planar (epoch_step ext cfg st b ls lh ts tr loc t)"
proof (cases "aborted loc")
  case True
  with assms(2) show ?thesis by (simp add: epoch_step_aborted)
next
  case False
  have "planar (l\<lparr>count_obs := c, pnp_calls := k\<rparr>) = planar l" for l c k
    by (simp add: planar_def)
  then show ?thesis
    using assms False
    by (simp add: epoch_step_live Let_def planar_seed_epoch split: option.splits)
qed

lemma planar_tracker_step:
  assumes "force2d cfg" and "planar loc"
  shows "planar (tracker_step ext cfg st b ls lh loc tt)"
proof -
  have "planar (foldl (epoch_step ext cfg st b ls lh (fst tt) (snd tt)) loc
                   (epochs_of b (fst tt) ls))"
    by (rule foldl_invariant [where P = planar, OF assms(2)])
       (rule planar_epoch_step [OF assms(1)])
  then show ?thesis
    by (simp add: tracker_step_def fix_tracker_def Let_def planar_set_constant)
qed

lemma planar_lighthouse_step:
  assumes "force2d cfg" and "planar loc"
  shows "planar (lighthouse_step ext cfg st b first loc lt)"
proof -
  have "planar (foldl (tracker_step ext cfg st b (fst lt) (snd lt)) loc (trackers st))"
    by (rule foldl_invariant [where P = planar, OF assms(2)])
       (rule planar_tracker_step [OF assms(1)])
  then show ?thesis
    by (simp add: lighthouse_step_def fix_lighthouse_def Let_def planar_set_constant)
qed

lemma planar_lighthouse_loop:
  "force2d cfg \<Longrightarrow> planar loc \<Longrightarrow> planar (lighthouse_loop ext cfg st b first lts loc)"
  by (induction lts arbitrary: first loc) (simp_all add: planar_lighthouse_step)

lemma planar_Solve_bootstrap:
  assumes "force2d cfg" and "\<not> aborted (Solve_bootstrap ext cfg st)"
  shows "planar (Solve_bootstrap ext cfg st) \<and>
         (\<forall>tp \<in> set (wTb (Solve_bootstrap ext cfg st)).
            snd tp ! 2 = Statistic_Mean (height (Solve_bootstrap ext cfg st)))"
proof -
  let ?L = "lighthouse_loop ext cfg st (bundle_measurements ext (res cfg) (measurements st)) True
              (lighthouses st) locals_init"
  define W where "W = (if \<not> refine_registration cfg then set_constant B_wTv ?L else ?L)"
  have "planar locals_init" by (simp add: planar_def locals_init_def)
  with assms(1) have L: "planar ?L" by (rule planar_lighthouse_loop)
  then have W: "planar W" by (simp add: W_def planar_set_constant)
  have a: "\<not> aborted W" using assms(2) by (simp add: W_def Solve_bootstrap_problem Let_def)
  have w: "wTb (Solve_bootstrap ext cfg st) =
      map (\<lambda>(t, p). (t, p[2 := Statistic_Mean (height W)])) (wTb W)"
    using assms(1) a by (simp add: W_def Solve_bootstrap_def Let_def)
  have h: "height (Solve_bootstrap ext cfg st) = height W"
    by (simp add: W_def Solve_bootstrap_def Let_def)
  have c: "problem (Solve_bootstrap ext cfg st) = problem W"
    by (simp add: W_def Solve_bootstrap_def Let_def)
  show ?thesis
    unfolding planar_def w h c using W
    by (auto simp: planar_def)
qed

lemma solved_pose_planar:
  assumes "length p = 6"
    and "B_pos_z t \<in> set (constant_blocks pr)" and "B_rot_xy t \<in> set (constant_blocks pr)"
  shows "solved_pose ext pr t p ! 2 = p ! 2 \<and> solved_pose ext pr t p ! 3 = p ! 3 \<and>
         solved_pose ext pr t p ! 4 = p ! 4"
proof -
  from assms(1) obtain a b c d e f where p: "p = [a, b, c, d, e, f]" by (rule six_elements)
  have "length (solved ext pr (B_pos_xy t) [a, b]) = 2" by (simp add: length_solved)
  then obtain x y where xy: "solved ext pr (B_pos_xy t) [a, b] = [x, y]"
    by (cases "solved ext pr (B_pos_xy t) [a, b]" rule: list.exhaust;
        simp; metis length_0_conv length_Suc_conv)
  show ?thesis
    using assms(2,3) by (simp add: solved_pose_def p xy solved_constant)
qed

lemma Solve_succeeds:
  "fst (Solve ext cfg st) = Returned True \<longleftrightarrow>
     measurements st \<noteq> [] \<and> \<not> aborted (Solve_bootstrap ext cfg st) \<and> IsSolutionUsable ext"
  by (simp add: Solve_def Let_def)

lemma pub_path_Solve:
  assumes "fst (Solve ext cfg st) = Returned True" and "visualize cfg"
  shows "poses (last (pub_path (sent (snd (Solve ext cfg st))))) =
           map (pose_stamped ext cfg) (Solve_poses ext cfg st)"
  using assms by (simp add: Solve_def Let_def emit_def split: if_splits)

text \<open>
  Claim C7. With \<^verbatim>\<open>force2d_\<close> set, after a solve that succeeds every body pose has the
  same height, the mean of the heights seeded by the bootstrap (one for every successful
  perspective solve), and its two horizontal rotation components are 0. These are the
  poses published on the path when \<^verbatim>\<open>visualize_\<close> is set.
\<close>

theorem planar_poses_after_solve:
  assumes "force2d cfg" and "fst (Solve ext cfg st) = Returned True"
  shows "(\<forall>tp \<in> set (Solve_poses ext cfg st).
            snd tp ! 2 = sum_list (seeded_heights ext cfg st) /
                           real (length (seeded_heights ext cfg st)) \<and>
            snd tp ! 3 = 0 \<and> snd tp ! 4 = 0) \<and>
         (visualize cfg \<longrightarrow>
            poses (last (pub_path (sent (snd (Solve ext cfg st))))) =
              map (pose_stamped ext cfg) (Solve_poses ext cfg st))"
proof (intro conjI ballI impI)
  from assms(2) have live: "\<not> aborted (Solve_bootstrap ext cfg st)"
    by (simp add: Solve_succeeds)
  fix tp assume "tp \<in> set (Solve_poses ext cfg st)"
  then obtain t p where tp: "tp = (t, solved_pose ext (problem (Solve_bootstrap ext cfg st)) t p)"
    and m: "(t, p) \<in> set (wTb (Solve_bootstrap ext cfg st))"
    by (auto simp: Solve_poses_def ceres_Solve_def)
  from planar_Solve_bootstrap [OF assms(1) live] m
  have p: "length p = 6" "p ! 3 = 0" "p ! 4 = 0"
      "B_pos_z t \<in> set (constant_blocks (problem (Solve_bootstrap ext cfg st)))"
      "B_rot_xy t \<in> set (constant_blocks (problem (Solve_bootstrap ext cfg st)))"
      "p ! 2 = Statistic_Mean (height (Solve_bootstrap ext cfg st))"
    by (auto simp: planar_def)
  from solved_pose_planar [OF p(1,4,5), of ext] p(2,3,6)
  show "snd tp ! 2 = sum_list (seeded_heights ext cfg st) /
                           real (length (seeded_heights ext cfg st))"
    and "snd tp ! 3 = 0" and "snd tp ! 4 = 0"
    by (simp_all add: tp Statistic_Mean_def seeds_Solve_bootstrap(2) [OF live])
next
  assume "visualize cfg"
  with assms(2) show "poses (last (pub_path (sent (snd (Solve ext cfg st))))) =
              map (pose_stamped ext cfg) (Solve_poses ext cfg st)"
    by (rule pub_path_Solve)
qed

theorem planar_poses_after_solve_witness:
  "force2d demo_planar \<and> fst (Solve demo_ext demo_planar demo_session) = Returned True \<and>
   map fst (Solve_poses demo_ext demo_planar demo_session) = [0, 1 / 8] \<and>
   seeded_heights demo_ext demo_planar demo_session = [2, 2, 3, 3] \<and>
   snd (hd (Solve_poses demo_ext demo_planar demo_session)) ! 2 = 5 / 2 \<and>
   snd (hd (Solve_poses demo_ext demo_planar demo_session)) ! 3 = 0 \<and>
   snd (hd (Solve_poses demo_ext demo_planar demo_session)) ! 4 = 0 \<and>
   snd (last (Solve_poses demo_ext demo_planar demo_session)) ! 2 = 5 / 2"
proof -
  have f: "force2d demo_planar" by (simp add: demo_planar_simps)
  have l: "\<not> aborted (Solve_bootstrap demo_ext demo_planar demo_session)"
    by (rule demo_live) (simp_all add: demo_planar_simps)
  have s: "fst (Solve demo_ext demo_planar demo_session) = Returned True"
    using l by (simp add: Solve_succeeds demo_session_def demo_ext_def)
  have k: "map fst (Solve_poses demo_ext demo_planar demo_session) = [0, 1 / 8]"
    by (simp add: Solve_poses_keys demo_links demo_planar_simps)
  have h: "seeded_heights demo_ext demo_planar demo_session = [2, 2, 3, 3]"
    by (simp add: seeded_heights_def demo_seeds demo_planar_simps)
  from k have n: "Solve_poses demo_ext demo_planar demo_session \<noteq> []" by auto
  from planar_poses_after_solve [OF f s]
  have a: "\<forall>tp \<in> set (Solve_poses demo_ext demo_planar demo_session).
      snd tp ! 2 = 5 / 2 \<and> snd tp ! 3 = 0 \<and> snd tp ! 4 = 0"
    by (simp add: h)
  from bspec [OF a hd_in_set [OF n]] bspec [OF a last_in_set [OF n]] f s k h
  show ?thesis by simp
qed

section \<open>C8: the residual blocks of the motion cost\<close>
















section \<open>C6: the epochs and the buckets\<close>

lemma bucket_push_back:
  "bucket (push_back k' v b) k = bucket b k @ (if k' = k then [v] else [])"
  by (induction b) (auto simp: bucket_def)

lemma bucket_pushes:
  "bucket (foldl (\<lambda>b kv. push_back (fst kv) (snd kv) b) b kvs) k =
     bucket b k @ map snd (filter (\<lambda>kv. fst kv = k) kvs)"
  by (induction kvs arbitrary: b) (simp_all add: bucket_push_back)

lemma keys_push_back: "fst ` set (push_back k v b) = insert k (fst ` set b)"
  by (induction k v b rule: push_back.induct) (simp_all add: insert_commute insert_absorb)

lemma keys_pushes:
  "fst ` set (foldl (\<lambda>b kv. push_back (fst kv) (snd kv) b) b kvs) = fst ` set b \<union> fst ` set kvs"
  by (induction kvs arbitrary: b) (simp_all add: keys_push_back)

lemma bundle_light_pushes:
  "bundle_light ext r b m =
     foldl (\<lambda>b kv. push_back (fst kv) (snd kv) b) b
       (map (\<lambda>p. (light_key ext r (fst m) (snd m) p, angle p)) (pulses (snd m)))"
  by (simp add: bundle_light_def foldl_map)

lemma bundle_pushes:
  "foldl (bundle_light ext r) b ms =
     foldl (\<lambda>b kv. push_back (fst kv) (snd kv) b) b (samples ext r ms)"
  by (induction ms arbitrary: b) (simp_all add: samples_def bundle_light_pushes)

lemma bucket_bundle:
  "bucket (bundle_measurements ext r ms) k =
     map snd (filter (\<lambda>kv. fst kv = k) (samples ext r ms))"
  by (simp add: bundle_measurements_def bundle_pushes bucket_pushes) (simp add: bucket_def)

lemma filter_concat_map: "filter P (concat (map f xs)) = concat (map (\<lambda>x. filter P (f x)) xs)"
  by (induction xs) simp_all

lemma filter_as_concat: "filter P (map f xs) = concat (map (\<lambda>x. if P (f x) then [f x] else []) xs)"
  by (induction xs) simp_all

text \<open>The samples of one measurement that go to the bucket of a tracker, lighthouse,
  epoch, sensor and axis: none unless the measurement is of that tracker, lighthouse and
  axis and its time stamp has that epoch, and then the angles of the pulses of that
  sensor.\<close>

lemma samples_of_light:
  "map snd (filter (\<lambda>kv. fst kv = (ts, ls, e, s, a))
      (map (\<lambda>p. (light_key ext r t l p, angle p)) ps)) =
   (if frame_id l = ts \<and> lighthouse l = ls \<and> epoch ext r t = e \<and> axis l mod 256 = a
    then map angle (filter (\<lambda>p. sensor p mod 256 = s) ps) else [])"
  by (induction ps) (auto simp: light_key_def)

lemma bucket_samples:
  "bucket (bundle_measurements ext r ms) (ts, ls, e, s, a) =
     concat (map (\<lambda>m.
       if frame_id (snd m) = ts \<and> lighthouse (snd m) = ls \<and> epoch ext r (fst m) = e \<and>
          axis (snd m) mod 256 = a
       then map angle (filter (\<lambda>p. sensor p mod 256 = s) (pulses (snd m))) else []) ms)"
  by (simp add: bucket_bundle samples_def filter_concat_map map_concat comp_def samples_of_light)

lemma keys_bundle:
  "fst ` set (bundle_measurements ext r ms) =
     {(frame_id l, lighthouse l, epoch ext r t, sensor p mod 256, axis l mod 256) | t l p.
        (t, l) \<in> set ms \<and> p \<in> set (pulses l)}"
  by (simp add: bundle_measurements_def bundle_pushes keys_pushes)
     (force simp: samples_def light_key_def)

lemma mset_concat_map: "mset (concat (map f xs)) = (\<Sum>x\<in>#mset xs. mset (f x))"
  by (induction xs) simp_all

lemma mset_samples:
  "mset ms' = mset ms \<Longrightarrow> mset (samples ext r ms') = mset (samples ext r ms)"
  by (simp add: samples_def mset_concat_map)

lemma bucket_permuted:
  assumes "mset ms' = mset ms"
  shows "mset (bucket (bundle_measurements ext r ms') k) =
         mset (bucket (bundle_measurements ext r ms) k)"
  using mset_samples [OF assms, of ext r] by (simp add: bucket_bundle)

lemma alist_from_keys:
  assumes "distinct (map fst xs)"
  shows "map (\<lambda>k. (k, the (map_of xs k))) (map fst xs) = xs"
proof -
  have "map (\<lambda>kv. (fst kv, the (map_of xs (fst kv)))) xs = xs"
  proof (rule map_idI)
    fix kv assume "kv \<in> set xs"
    then have "(fst kv, snd kv) \<in> set xs" by simp
    with assms have "map_of xs (fst kv) = Some (snd kv)" by (simp only: map_of_eq_Some_iff)
    then show "(fst kv, the (map_of xs (fst kv))) = kv" by simp
  qed
  then show ?thesis by (simp add: comp_def)
qed

lemma same_map:
  assumes "sorted_wrt (<) (map fst ms)" and "sorted_wrt (<) (map fst ms')" and "set ms' = set ms"
  shows "ms' = (ms :: ('k::linorder \<times> 'v) list)"
proof -
  from assms(1,2) have d: "distinct (map fst ms)" "distinct (map fst ms')"
    and s: "sorted (map fst ms)" "sorted (map fst ms')"
    by (simp_all add: strict_sorted_iff)
  from assms(3) have "set (map fst ms') = set (map fst ms)" by simp
  with d s have k: "map fst ms' = map fst ms"
    by (simp add: sorted_distinct_set_unique)
  from d assms(3) have m: "map_of ms' = map_of ms"
    by (simp add: map_of_inject_set)
  have "ms' = map (\<lambda>k. (k, the (map_of ms' k))) (map fst ms')"
    by (simp only: alist_from_keys [OF d(2)])
  also have "\<dots> = map (\<lambda>k. (k, the (map_of ms k))) (map fst ms)"
    by (simp only: k m)
  also have "\<dots> = ms"
    by (simp only: alist_from_keys [OF d(1)])
  finally show ?thesis .
qed

text \<open>A \<^verbatim>\<open>std::map\<close> that has been filled by assignments has its keys in ascending
  order; filled under keys that differ, it holds what was assigned, whatever the order
  of the assignments.\<close>

lemma sorted_insert_key: "sorted_wrt (<) ks \<Longrightarrow> sorted_wrt (<) (insert_key k ks)"
  by (induction ks) (auto simp: set_insert_key)

lemma sorted_assigned:
  "sorted_wrt (<) (map fst al) \<Longrightarrow>
   sorted_wrt (<) (map fst (foldl (\<lambda>ms ob. map_assign (fst ob) (f ob) ms) al obs))"
  by (induction obs arbitrary: al) (simp_all add: keys_map_assign sorted_insert_key)

lemma set_map_assign_new:
  "k \<notin> fst ` set al \<Longrightarrow> set (map_assign k v al) = insert (k, v) (set al)"
  by (induction al) (auto split: if_splits)

lemma set_assigned:
  assumes "distinct (map fst obs)" and "fst ` set obs \<inter> fst ` set al = {}"
  shows "set (foldl (\<lambda>ms ob. map_assign (fst ob) (snd ob) ms) al obs) = set al \<union> set obs"
  using assms
proof (induction obs arbitrary: al)
  case Nil
  show ?case by simp
next
  case (Cons ob obs)
  from Cons.prems have n: "fst ob \<notin> fst ` set al" by auto
  from Cons.prems have d: "distinct (map fst obs)" by simp
  from Cons.prems n have i: "fst ` set obs \<inter> fst ` set (map_assign (fst ob) (snd ob) al) = {}"
    by (auto simp: set_map_assign_new)
  show ?case
    by (simp add: Cons.IH [OF d i] set_map_assign_new [OF n])
qed

lemma stored_any_order:
  assumes "distinct (map fst xs)" and "mset ys = mset xs"
  shows "stored ys = stored xs"
proof (rule same_map)
  show "sorted_wrt (<) (map fst (stored xs))" "sorted_wrt (<) (map fst (stored ys))"
    unfolding stored_def by (rule sorted_assigned, simp)+
  from assms(2) have "mset (map fst ys) = mset (map fst xs)" by simp
  with assms(1) have d: "distinct (map fst ys)" by (metis mset_eq_imp_distinct_iff)
  from assms(2) have s: "set ys = set xs" by (rule mset_eq_setD)
  show "set (stored ys) = set (stored xs)"
    by (simp add: stored_def set_assigned assms(1) d s)
qed

lemma map_of_map_assign:
  "map_of (map_assign k v al) k' = (if k' = k then Some v else map_of al k')"
  by (induction al) auto

lemma map_of_bundle_corrections:
  "map_of (bundle_corrections ext r cs) e =
     (if filter (\<lambda>c. epoch ext r (fst c) = e) cs = [] then None
      else Some (correction_pose ext (snd (last (filter (\<lambda>c. epoch ext r (fst c) = e) cs)))))"
  by (induction cs rule: rev_induct) (simp_all add: bundle_corrections_def map_of_map_assign)

text \<open>
  Claim C6. The key of the epoch of an observation or a correction with time stamp \<open>t\<close>
  is \<^verbatim>\<open>ros::Time(round(t.toSec() / r) * r)\<close>, computed on \<^verbatim>\<open>double\<close>s: it depends on the
  time stamp and the resolution alone. The bucket of a tracker, lighthouse, epoch, sensor
  and axis holds exactly the angles of the pulses of that sensor in the measurements of
  that tracker, lighthouse and axis whose time stamp has that key, in the order of the
  measurements, and the keys of the bundle are the keys of the pulses. So the buckets are
  a function of the measurement map: measurements processed in another order give
  buckets with the same samples, and observations stored under time stamps that differ
  give the same measurement map, hence the same buckets, in whatever order they were
  stored. The pose kept for an epoch of the corrections is that of the last correction
  whose time stamp has that key.
\<close>

theorem epoch_bundling_deterministic:
  "bucket (bundle_measurements ext r ms) (ts, ls, e, s, a) =
     concat (map (\<lambda>m.
       if frame_id (snd m) = ts \<and> lighthouse (snd m) = ls \<and>
          Time_of_double ext
            (double_mul ext (cpp_round (double_div ext (toSec ext (fst m)) r)) r) = e \<and>
          axis (snd m) mod 256 = a
       then map angle (filter (\<lambda>p. sensor p mod 256 = s) (pulses (snd m))) else []) ms) \<and>
   fst ` set (bundle_measurements ext r ms) =
     {(frame_id l, lighthouse l,
       Time_of_double ext (double_mul ext (cpp_round (double_div ext (toSec ext t) r)) r),
       sensor p mod 256, axis l mod 256) | t l p. (t, l) \<in> set ms \<and> p \<in> set (pulses l)} \<and>
   (mset ms' = mset ms \<longrightarrow>
      mset (bucket (bundle_measurements ext r ms') k) =
      mset (bucket (bundle_measurements ext r ms) k)) \<and>
   (distinct (map fst obs) \<and> mset obs' = mset obs \<longrightarrow>
      stored obs' = stored obs \<and>
      bundle_measurements ext r (stored obs') = bundle_measurements ext r (stored obs)) \<and>
   map_of (bundle_corrections ext r cs) e =
     (if filter (\<lambda>c. Time_of_double ext
            (double_mul ext (cpp_round (double_div ext (toSec ext (fst c)) r)) r) = e) cs = []
      then None
      else Some (correction_pose ext (snd (last (filter (\<lambda>c. Time_of_double ext
            (double_mul ext (cpp_round (double_div ext (toSec ext (fst c)) r)) r) = e) cs)))))"
proof (intro conjI)
  show "bucket (bundle_measurements ext r ms) (ts, ls, e, s, a) =
     concat (map (\<lambda>m.
       if frame_id (snd m) = ts \<and> lighthouse (snd m) = ls \<and>
          Time_of_double ext
            (double_mul ext (cpp_round (double_div ext (toSec ext (fst m)) r)) r) = e \<and>
          axis (snd m) mod 256 = a
       then map angle (filter (\<lambda>p. sensor p mod 256 = s) (pulses (snd m))) else []) ms)"
    by (simp only: bucket_samples epoch_def)
  show "fst ` set (bundle_measurements ext r ms) =
     {(frame_id l, lighthouse l,
       Time_of_double ext (double_mul ext (cpp_round (double_div ext (toSec ext t) r)) r),
       sensor p mod 256, axis l mod 256) | t l p. (t, l) \<in> set ms \<and> p \<in> set (pulses l)}"
    by (simp only: keys_bundle epoch_def)
  show "mset ms' = mset ms \<longrightarrow>
      mset (bucket (bundle_measurements ext r ms') k) =
      mset (bucket (bundle_measurements ext r ms) k)"
    by (rule impI) (rule bucket_permuted)
  show "distinct (map fst obs) \<and> mset obs' = mset obs \<longrightarrow>
      stored obs' = stored obs \<and>
      bundle_measurements ext r (stored obs') = bundle_measurements ext r (stored obs)"
  proof
    assume "distinct (map fst obs) \<and> mset obs' = mset obs"
    then have "stored obs' = stored obs" by (intro stored_any_order) simp_all
    then show "stored obs' = stored obs \<and>
      bundle_measurements ext r (stored obs') = bundle_measurements ext r (stored obs)"
      by simp
  qed
  show "map_of (bundle_corrections ext r cs) e =
     (if filter (\<lambda>c. Time_of_double ext
            (double_mul ext (cpp_round (double_div ext (toSec ext (fst c)) r)) r) = e) cs = []
      then None
      else Some (correction_pose ext (snd (last (filter (\<lambda>c. Time_of_double ext
            (double_mul ext (cpp_round (double_div ext (toSec ext (fst c)) r)) r) = e) cs)))))"
    by (simp only: map_of_bundle_corrections epoch_def)
qed

theorem epoch_bundling_deterministic_witness:
  "bucket (bundle_measurements demo_ext (1 / 8) demo_pair) (''T'', ''A'', 0, 0, 0) = [1 / 8, 2 / 8] \<and>
   bucket (bundle_measurements demo_ext (1 / 8) demo_pair) (''T'', ''A'', 1 / 8, 0, 0) = [] \<and>
   mset (rev demo_pair) = mset demo_pair \<and>
   mset (bucket (bundle_measurements demo_ext (1 / 8) (rev demo_pair)) (''T'', ''A'', 0, 0, 0)) =
     mset [1 / 8, 2 / 8] \<and>
   distinct (map fst demo_pair) \<and>
   stored (rev demo_pair) = stored demo_pair \<and>
   map_of (bundle_corrections demo_ext (1 / 8)
      [(1 / 128, demo_tfs ! 0), (2 / 128, demo_tfs ! 1)]) 0 =
     Some [2, 2, 2, 0, 0, 0]"
proof -
  note d = epoch_bundling_deterministic [of demo_ext "1 / 8"]
  have 1: "bucket (bundle_measurements demo_ext (1 / 8) demo_pair) (''T'', ''A'', 0, 0, 0) =
      [1 / 8, 2 / 8]"
    using d [of demo_pair "''T''" "''A''" 0 0 0, THEN conjunct1]
    by (simp add: demo_pair_def demo_ext_def cpp_round_def)
  have 2: "bucket (bundle_measurements demo_ext (1 / 8) demo_pair) (''T'', ''A'', 1 / 8, 0, 0) = []"
    using d [of demo_pair "''T''" "''A''" "1 / 8" 0 0, THEN conjunct1]
    by (simp add: demo_pair_def demo_ext_def cpp_round_def)
  have p: "mset (rev demo_pair) = mset demo_pair" by simp
  from d [of demo_pair "''T''" "''A''" 0 0 0 "rev demo_pair" "(''T'', ''A'', 0, 0, 0)"] p
  have 3: "mset (bucket (bundle_measurements demo_ext (1 / 8) (rev demo_pair)) (''T'', ''A'', 0, 0, 0)) =
     mset (bucket (bundle_measurements demo_ext (1 / 8) demo_pair) (''T'', ''A'', 0, 0, 0))"
    by blast
  have t: "distinct (map fst demo_pair)" by (simp add: demo_pair_def)
  from d [of demo_pair "''T''" "''A''" 0 0 0 _ _ demo_pair "rev demo_pair"] t p
  have 4: "stored (rev demo_pair) = stored demo_pair" by blast
  have 5: "map_of (bundle_corrections demo_ext (1 / 8)
      [(1 / 128, demo_tfs ! 0), (2 / 128, demo_tfs ! 1)]) 0 = Some [2, 2, 2, 0, 0, 0]"
    using d [of "[]" "''T''" "''A''" 0 0 0 "[]" _ "[]" "[]"
        "[(1 / 128, demo_tfs ! 0), (2 / 128, demo_tfs ! 1)]", THEN conjunct2, THEN conjunct2,
        THEN conjunct2, THEN conjunct2]
    by (simp add: demo_ext_def cpp_round_def demo_tfs_def correction_pose_def)
  from 1 2 p 3 t 4 5 show ?thesis by simp
qed

section \<open>C5: when the perspective solver is called\<close>

text \<open>A bucket of the bundle is not empty exactly when some measurement holds a pulse for
  it, so the sensors with a sample on both axes in the bundle are those the specification
  counts.\<close>

lemma concat_map_nonempty: "concat (map f xs) \<noteq> [] \<longleftrightarrow> list_ex (\<lambda>x. f x \<noteq> []) xs"
  by (induction xs) auto

lemma filter_nonempty: "filter P xs \<noteq> [] \<longleftrightarrow> list_ex P xs"
  by (induction xs) auto

lemma if_nonempty: "(if c then xs else []) \<noteq> [] \<longleftrightarrow> c \<and> xs \<noteq> []"
  by simp

lemma sampled_bucket:
  "bucket (bundle_measurements ext r ms) (ts, ls, e, s, a) \<noteq> [] \<longleftrightarrow> sampled ext r ms ts ls e s a"
  unfolding bucket_samples sampled_def concat_map_nonempty if_nonempty map_is_Nil_conv
    filter_nonempty
  by (simp only: conj_assoc)

lemma valid_seen:
  "valid_sensors (bundle_measurements ext (res cfg) ms) ts ls e (unat (NUM_SENSORS cfg)) =
     seen_on_both ext cfg ms ts ls e"
  by (simp add: valid_sensors_def seen_on_both_def sampled_bucket)

lemma bucket_in_bundle: "bucket b k \<noteq> [] \<Longrightarrow> k \<in> fst ` set b"
  unfolding dom_map_of_conv_image_fst [symmetric]
  by (auto simp: bucket_def split: option.splits)

lemma epochs_of_iff:
  "e \<in> set (epochs_of b ts ls) \<longleftrightarrow> (\<exists>s a. (ts, ls, e, s, a) \<in> fst ` set b)"
  by (force simp: epochs_of_def)

lemma seen_epoch:
  assumes "seen_on_both ext cfg ms ts ls e \<noteq> []"
  shows "e \<in> set (epochs_of (bundle_measurements ext (res cfg) ms) ts ls)"
proof -
  from assms obtain s where "s \<in> set (seen_on_both ext cfg ms ts ls e)"
    by (cases "seen_on_both ext cfg ms ts ls e") auto
  then have "sampled ext (res cfg) ms ts ls e s 0" by (simp add: seen_on_both_def)
  then have "bucket (bundle_measurements ext (res cfg) ms) (ts, ls, e, s, 0) \<noteq> []"
    by (simp add: sampled_bucket)
  then have "(ts, ls, e, s, 0) \<in> fst ` set (bundle_measurements ext (res cfg) ms)"
    by (rule bucket_in_bundle)
  then show ?thesis unfolding epochs_of_iff by blast
qed

text \<open>One epoch does what its attempt says, as long as the process has not been ended.\<close>

lemma group_residuals_motion_added:
  "filter (\<lambda>rb. \<not> is_motion rb) (motion_added ext cfg t ks) = []"
  by (simp add: motion_added_def split: option.splits)

lemma calls_epoch_step:
  assumes "\<not> aborted loc"
  shows "calls (epoch_step ext cfg st b ls lh ts tr loc t) =
           foldl attempt_step (calls loc) (epoch_attempt ext cfg st b ls lh ts tr t)"
proof (cases "3 < length (fst (snd (correspondences ext cfg b ls lh ts tr t)))")
  case False
  then have "\<not> 4 \<le> length (valid_sensors b ts ls t (unat (NUM_SENSORS cfg)))"
    by (simp add: length_obj)
  with False show ?thesis
    using assms by (simp add: epoch_step_live epoch_attempt_def Let_def)
next
  case many: True
  then have "4 \<le> length (valid_sensors b ts ls t (unat (NUM_SENSORS cfg)))"
    by (simp add: length_obj)
  then have a: "epoch_attempt ext cfg st b ls lh ts tr t =
      [((ls, ts, t), fst (correspondences ext cfg b ls lh ts tr t),
        bootstrap_pose ext cfg st b ls lh ts tr t)]"
    by (simp add: epoch_attempt_def)
  show ?thesis
  proof (cases "solvePnPRansac ext (fst (snd (correspondences ext cfg b ls lh ts tr t)))
                  (snd (snd (correspondences ext cfg b ls lh ts tr t))) (z_plane ext)")
    case None
    with many assms show ?thesis
      by (simp add: a epoch_step_live Let_def bootstrap_pose_def attempt_step_def calls_def)
  next
    case (Some RT)
    with many assms show ?thesis
      by (simp add: a epoch_step_live Let_def bootstrap_pose_def attempt_step_def calls_def
          group_residuals_def residual_blocks_seed_epoch group_residuals_motion_added
          keys_seed_epoch pnp_calls_seed_epoch)
  qed
qed

lemma calls_fix:
  "calls (fix_tracker cfg ts loc) = calls loc"
  "calls (fix_lighthouse cfg first ls loc) = calls loc"
  "calls (set_constant b loc) = calls loc"
  by (simp_all add: calls_def group_residuals_def fix_tracker_keeps fix_lighthouse_keeps
      set_constant_keeps)

text \<open>When \<^verbatim>\<open>ceres::Solve\<close> is called the attempts have all been made; when Ceres has
  ended the process, an initial part of them.\<close>

lemma calls_Solve_bootstrap:
  "\<exists>n. calls (Solve_bootstrap ext cfg st) =
         foldl attempt_step ([], [], []) (take n (attempts ext cfg st)) \<and>
       (\<not> aborted (Solve_bootstrap ext cfg st) \<longrightarrow> length (attempts ext cfg st) \<le> n)"
proof -
  let ?b = "bundle_measurements ext (res cfg) (measurements st)"
  let ?L = "lighthouse_loop ext cfg st ?b True (lighthouses st) locals_init"
  have e: "calls (Solve_bootstrap ext cfg st) = calls ?L"
    by (simp add: Solve_bootstrap_def Let_def calls_def group_residuals_def
        set_constant_keeps split_def)
  have i: "calls locals_init = ([], [], [])"
    by (simp add: calls_def locals_init_def group_residuals_def)
  have "\<exists>n. calls ?L =
         foldl attempt_step (calls locals_init) (take n
           (concat (map (\<lambda>lt. concat (map (\<lambda>tt. concat (map
              (epoch_attempt ext cfg st ?b (fst lt) (snd lt) (fst tt) (snd tt))
              (epochs_of ?b (fst tt) (fst lt)))) (trackers st))) (lighthouses st)))) \<and>
       (\<not> aborted ?L \<longrightarrow>
          length (concat (map (\<lambda>lt. concat (map (\<lambda>tt. concat (map
              (epoch_attempt ext cfg st ?b (fst lt) (snd lt) (fst tt) (snd tt))
              (epochs_of ?b (fst tt) (fst lt)))) (trackers st))) (lighthouses st))) \<le> n)"
    by (rule bootstrap_simulation
          [where g = "\<lambda>ls lh tt. epoch_attempt ext cfg st ?b ls lh (fst tt) (snd tt)"])
       (simp_all add: calls_epoch_step calls_fix)
  with Solve_bootstrap_loop_live [of ext cfg st] show ?thesis
    unfolding e i attempts_def Let_def by blast
qed

lemma foldl_attempt_step:
  "foldl attempt_step acc xs =
     (fst acc @ map fst xs,
      fst (snd acc) @ concat (map (\<lambda>att. case snd (snd att) of None \<Rightarrow> []
         | Some p \<Rightarrow> [GroupCost_block (fst (snd att)) (group_blocks (fst att))]) xs),
      foldl (\<lambda>ks att. case snd (snd att) of None \<Rightarrow> ks
         | Some p \<Rightarrow> insert_key (snd (snd (fst att))) ks) (snd (snd acc)) xs)"
  by (induction xs arbitrary: acc) (simp_all add: attempt_step_def split: option.splits)

text \<open>The attempts are those of the lighthouses, trackers and epochs with at least four
  sensors seen on both axes, whatever the bundle is made of.\<close>

lemma attempts_triples:
  "map fst (attempts ext cfg st) =
     filter (\<lambda>k. 4 \<le> length (seen_on_both ext cfg (measurements st) (fst (snd k)) (fst k)
                               (snd (snd k))))
       (triples st (bundle_measurements ext (res cfg) (measurements st)))"
  by (simp add: attempts_def triples_def Let_def map_concat comp_def epoch_attempt_def
      filter_concat_map filter_as_concat valid_seen if_distrib [of "map fst"] cong: if_cong)

lemma attempts_iff:
  "(l, t, e) \<in> fst ` set (attempts ext cfg st) \<longleftrightarrow>
     l \<in> fst ` set (lighthouses st) \<and> t \<in> fst ` set (trackers st) \<and>
     4 \<le> length (seen_on_both ext cfg (measurements st) t l e)"
proof -
  have "(l, t, e) \<in> set (map fst (attempts ext cfg st)) \<longleftrightarrow>
     l \<in> fst ` set (lighthouses st) \<and> t \<in> fst ` set (trackers st) \<and>
     e \<in> set (epochs_of (bundle_measurements ext (res cfg) (measurements st)) t l) \<and>
     4 \<le> length (seen_on_both ext cfg (measurements st) t l e)"
    unfolding attempts_triples by (force simp: triples_def)
  moreover have "e \<in> set (epochs_of (bundle_measurements ext (res cfg) (measurements st)) t l)"
    if "4 \<le> length (seen_on_both ext cfg (measurements st) t l e)"
    using that by (intro seen_epoch) auto
  ultimately show ?thesis by auto
qed

text \<open>So, in a run of \<^verbatim>\<open>Solve\<close> that reaches \<^verbatim>\<open>ceres::Solve\<close>, the perspective solver has
  been called for exactly the lighthouses, trackers and epochs with at least four of the
  sensors \<open>0, ..., NUM_SENSORS - 1\<close> seen on both axes, once each in the order of the
  loops, and the residual blocks of \<^verbatim>\<open>GroupCost\<close> are those of the calls that gave a pose.
  In a run that Ceres ends before, the same holds of an initial part of these calls.\<close>

lemma attempts_made_all:
  assumes "\<not> aborted (Solve_bootstrap ext cfg st)"
  shows "pnp_calls (Solve_bootstrap ext cfg st) = map fst (attempts ext cfg st)"
    and "group_residuals (problem (Solve_bootstrap ext cfg st)) =
      concat (map (\<lambda>att. case snd (snd att) of None \<Rightarrow> []
         | Some p \<Rightarrow> [GroupCost_block (fst (snd att)) (group_blocks (fst att))])
        (attempts ext cfg st))"
    and "(l, t, e) \<in> set (pnp_calls (Solve_bootstrap ext cfg st)) \<longleftrightarrow>
      l \<in> fst ` set (lighthouses st) \<and> t \<in> fst ` set (trackers st) \<and>
      4 \<le> length (seen_on_both ext cfg (measurements st) t l e)"
proof -
  from calls_Solve_bootstrap [of ext cfg st] assms
  have c: "calls (Solve_bootstrap ext cfg st) =
      foldl attempt_step ([], [], []) (attempts ext cfg st)" by auto
  from c show p: "pnp_calls (Solve_bootstrap ext cfg st) = map fst (attempts ext cfg st)"
    by (simp add: calls_def foldl_attempt_step)
  from c show "group_residuals (problem (Solve_bootstrap ext cfg st)) =
      concat (map (\<lambda>att. case snd (snd att) of None \<Rightarrow> []
         | Some p \<Rightarrow> [GroupCost_block (fst (snd att)) (group_blocks (fst att))])
        (attempts ext cfg st))"
    by (simp add: calls_def foldl_attempt_step)
  show "(l, t, e) \<in> set (pnp_calls (Solve_bootstrap ext cfg st)) \<longleftrightarrow>
      l \<in> fst ` set (lighthouses st) \<and> t \<in> fst ` set (trackers st) \<and>
      4 \<le> length (seen_on_both ext cfg (measurements st) t l e)"
    unfolding p set_map by (rule attempts_iff)
qed

lemma attempts_made_part:
  "\<exists>n. pnp_calls (Solve_bootstrap ext cfg st) = map fst (take n (attempts ext cfg st)) \<and>
       group_residuals (problem (Solve_bootstrap ext cfg st)) =
         concat (map (\<lambda>att. case snd (snd att) of None \<Rightarrow> []
            | Some p \<Rightarrow> [GroupCost_block (fst (snd att)) (group_blocks (fst att))])
           (take n (attempts ext cfg st)))"
proof -
  from calls_Solve_bootstrap [of ext cfg st] obtain n where
    "calls (Solve_bootstrap ext cfg st) =
       foldl attempt_step ([], [], []) (take n (attempts ext cfg st))" by blast
  then show ?thesis
    by (intro exI [of _ n]) (simp add: calls_def foldl_attempt_step)
qed

lemma demo_unseen_bundle:
  "bundle_measurements demo_ext (res demo_cfg) (measurements demo_unseen) =
     concat (map (\<lambda>t. concat (map (\<lambda>a.
        map (\<lambda>s. ((''T'', ''B'', t, s, a), [1 / 8])) [0, 1, 2, 3]) [0, 1])) [0, 1 / 8])"
  by (simp add: bundle_measurements_def bundle_light_def light_key_def demo_epoch
      demo_unseen_def demo_session_def demo_light_def demo_cfg_def)

lemma demo_unseen_simps:
  "lighthouses demo_unseen = lighthouses demo_session"
  "trackers demo_unseen = trackers demo_session"
  "wTv demo_unseen = wTv demo_session"
  "measurements demo_unseen \<noteq> []"
  "measurements demo_only_B = measurements demo_unseen"
  "trackers demo_only_B = trackers demo_session"
  "lighthouses demo_only_B =
     [(''B'', \<lparr>vTl = [1, 1, 1, 1, 1, 1], params = replicate 10 0, l_ready = True\<rparr>)]"
  by (simp_all add: demo_unseen_def demo_only_B_def demo_session_def demo_idle_def
      demo_light_def)

lemma demo_unseen_epochs:
  "epochs_of (bundle_measurements demo_ext (res demo_cfg) (measurements demo_unseen)) ''T'' ''A'' = []"
  "epochs_of (bundle_measurements demo_ext (res demo_cfg) (measurements demo_unseen)) ''T'' ''B'' = [0, 1 / 8]"
  unfolding demo_unseen_bundle by (simp_all add: epochs_of_def)

lemma demo_unseen_seen:
  "seen_on_both demo_ext demo_cfg (measurements demo_unseen) ''T'' ''B'' 0 = [0, 1, 2, 3]"
  "seen_on_both demo_ext demo_cfg (measurements demo_unseen) ''T'' ''B'' (1 / 8) = [0, 1, 2, 3]"
  unfolding valid_seen [symmetric] demo_sensors demo_unseen_bundle
  by (simp_all add: valid_sensors_def bucket_def upt_5)

lemma demo_unseen_bootstrap:
  "Solve_bootstrap demo_ext demo_cfg demo_unseen = locals_init\<lparr>aborted := True\<rparr>"
proof -
  let ?b = "bundle_measurements demo_ext (res demo_cfg) (measurements demo_unseen)"
  have f: "fix_tracker demo_cfg ''T'' locals_init = locals_init\<lparr>aborted := True\<rparr>"
    by (simp add: fix_tracker_def Let_def set_constant_def SetParameterBlockConstant_def
        parameter_blocks_def locals_init_def demo_cfg_def)
  have a: "aborted (locals_init\<lparr>aborted := True\<rparr>)" by simp
  have A: "lighthouse_step demo_ext demo_cfg demo_unseen ?b True locals_init
      (''A'', lh) = locals_init\<lparr>aborted := True\<rparr>" for lh
    by (simp add: lighthouse_step_def tracker_step_def demo_unseen_simps demo_session_simps
        demo_unseen_epochs f fix_aborted [OF a])
  have r: "refine_registration demo_cfg" "\<not> force2d demo_cfg" by (simp_all add: demo_cfg_def)
  show ?thesis
    by (simp add: Solve_bootstrap_def Let_def demo_unseen_simps demo_session_simps A
        lighthouse_step_aborted [OF a] r)
qed

lemma demo_only_B_live: "\<not> aborted (Solve_bootstrap demo_ext demo_cfg demo_only_B)"
proof (rule Solve_bootstrap_live)
  show "lighthouses demo_only_B \<noteq> []" "trackers demo_only_B \<noteq> []"
    by (simp_all add: demo_unseen_simps demo_session_simps)
  have s: "solvePnPRansac demo_ext obj img z = Some ([0, 0, 0], [0, 0, 1])" for obj img z
    by (simp add: demo_ext_def)
  have "bootstrap_pose demo_ext demo_cfg demo_only_B
      (bundle_measurements demo_ext (res demo_cfg) (measurements demo_unseen))
      ''B'' lh ''T'' tr 0 \<noteq> None" for lh tr
    by (simp add: bootstrap_pose_def Let_def length_obj valid_seen demo_unseen_seen s)
  then show "\<forall>lt \<in> set (lighthouses demo_only_B). \<forall>tt \<in> set (trackers demo_only_B).
           \<exists>t \<in> set (epochs_of (bundle_measurements demo_ext (res demo_cfg) (measurements demo_only_B))
                      (fst tt) (fst lt)).
             bootstrap_pose demo_ext demo_cfg demo_only_B
               (bundle_measurements demo_ext (res demo_cfg) (measurements demo_only_B))
               (fst lt) (snd lt) (fst tt) (snd tt) t \<noteq> None"
    by (simp add: demo_unseen_simps demo_session_simps demo_unseen_epochs)
qed

lemma demo_only_B_calls:
  "pnp_calls (Solve_bootstrap demo_ext demo_cfg demo_only_B) =
     [(''B'', ''T'', 0), (''B'', ''T'', 1 / 8)]"
  by (simp add: attempts_made_all(1) [OF demo_only_B_live] attempts_triples triples_def
      demo_unseen_simps demo_session_simps demo_unseen_epochs demo_unseen_seen)

text \<open>With a perspective solver that never fails, every call leaves a pose under the key
  of its epoch and a residual block of \<^verbatim>\<open>GroupCost\<close>.\<close>

lemma attempts_succeed:
  assumes "\<And>obj img z. solvePnPRansac ext obj img z \<noteq> None"
  shows "\<forall>att \<in> set (attempts ext cfg st). snd (snd att) \<noteq> None"
  using assms
  by (auto simp: attempts_def Let_def epoch_attempt_def bootstrap_pose_def length_obj
      split: option.splits if_splits)

lemma foldl_keys_succeed:
  "\<forall>att \<in> set xs. snd (snd att) \<noteq> None \<Longrightarrow>
   foldl (\<lambda>ks att. case snd (snd att) of None \<Rightarrow> ks
         | Some p \<Rightarrow> insert_key (snd (snd (fst att))) ks) ks xs =
   foldl (\<lambda>ks k. insert_key (snd (snd k)) ks) ks (map fst xs)"
  by (induction xs arbitrary: ks) auto

lemma length_blocks_succeed:
  "\<forall>att \<in> set xs. snd (snd att) \<noteq> None \<Longrightarrow>
   length (concat (map (\<lambda>att. case snd (snd att) of None \<Rightarrow> []
         | Some p \<Rightarrow> [GroupCost_block (fst (snd att)) (group_blocks (fst att))]) xs)) =
   length (map fst xs)"
  by (induction xs) auto

lemma poses_of_calls:
  assumes "\<not> aborted (Solve_bootstrap ext cfg st)"
    and "\<And>obj img z. solvePnPRansac ext obj img z \<noteq> None"
  shows "map fst (wTb (Solve_bootstrap ext cfg st)) =
     foldl (\<lambda>ks k. insert_key (snd (snd k)) ks) [] (pnp_calls (Solve_bootstrap ext cfg st))"
proof -
  from calls_Solve_bootstrap [of ext cfg st] assms(1)
  have c: "calls (Solve_bootstrap ext cfg st) =
      foldl attempt_step ([], [], []) (attempts ext cfg st)" by auto
  from c show ?thesis
    by (simp add: calls_def foldl_attempt_step
        foldl_keys_succeed [OF attempts_succeed [of ext, OF assms(2)]])
qed

lemma demo_only_B_poses:
  "map fst (wTb (Solve_bootstrap demo_ext demo_cfg demo_only_B)) = [0, 1 / 8]"
proof -
  have "solvePnPRansac demo_ext obj img z \<noteq> None" for obj img z
    by (simp add: demo_ext_def)
  from poses_of_calls [OF demo_only_B_live this] show ?thesis
    by (simp add: demo_only_B_calls)
qed

lemma demo_only_B_blocks:
  "length (group_residuals (problem (Solve_bootstrap demo_ext demo_cfg demo_only_B))) = 2"
proof -
  have s: "solvePnPRansac demo_ext obj img z \<noteq> None" for obj img z
    by (simp add: demo_ext_def)
  from length_blocks_succeed [OF attempts_succeed [of demo_ext, OF s]] show ?thesis
    by (simp only: attempts_made_all(2) [OF demo_only_B_live]
         attempts_made_all(1) [OF demo_only_B_live, symmetric] demo_only_B_calls) simp
qed

text \<open>
  Claim C5. According to the claim the perspective solver is called for every lighthouse,
  tracker and epoch with at least four sensors seen on both axes. In the session
  \<open>demo_unseen\<close> the tracker \<open>T\<close> is seen by lighthouse \<open>B\<close> with four sensors on both
  axes in two epochs, and lighthouse \<open>A\<close>, which comes first in the map, has seen nothing.
  The loops then reach line 433 for lighthouse \<open>A\<close> with no residual block in the problem,
  Ceres ends the process there, and the solver is never called: no call, no pose, no
  residual block, and \<^verbatim>\<open>Solve\<close> does not return. With lighthouse \<open>A\<close> left out of the map
  the same measurements give the two calls, and with them the poses of the two epochs and
  two residual blocks of \<^verbatim>\<open>GroupCost\<close>.
\<close>

theorem bootstrap_ended_before_attempt:
  "''B'' \<in> fst ` set (lighthouses demo_unseen) \<and> ''T'' \<in> fst ` set (trackers demo_unseen) \<and>
   length (seen_on_both demo_ext demo_cfg (measurements demo_unseen) ''T'' ''B'' 0) = 4 \<and>
   length (seen_on_both demo_ext demo_cfg (measurements demo_unseen) ''T'' ''B'' (1 / 8)) = 4 \<and>
   Solve_bootstrap demo_ext demo_cfg demo_unseen = locals_init\<lparr>aborted := True\<rparr> \<and>
   pnp_calls (Solve_bootstrap demo_ext demo_cfg demo_unseen) = [] \<and>
   wTb (Solve_bootstrap demo_ext demo_cfg demo_unseen) = [] \<and>
   residual_blocks (problem (Solve_bootstrap demo_ext demo_cfg demo_unseen)) = [] \<and>
   Solve demo_ext demo_cfg demo_unseen = (Aborted, demo_unseen) \<and>
   pnp_calls (Solve_bootstrap demo_ext demo_cfg demo_only_B) =
     [(''B'', ''T'', 0), (''B'', ''T'', 1 / 8)] \<and>
   map fst (wTb (Solve_bootstrap demo_ext demo_cfg demo_only_B)) = [0, 1 / 8] \<and>
   length (group_residuals (problem (Solve_bootstrap demo_ext demo_cfg demo_only_B))) = 2"
  by (simp add: demo_unseen_bootstrap demo_unseen_seen demo_only_B_calls Solve_def
      demo_unseen_simps demo_session_simps demo_only_B_poses demo_only_B_blocks)
     (simp add: locals_init_def)

section \<open>C9: recording and solving\<close>

text \<open>\<^verbatim>\<open>TriggerCallback\<close> run to its end: what the steps give is what the text of the
  callback says, with \<^verbatim>\<open>Solve\<close> as the function defined above.\<close>

lemma TriggerCallback_result:
  "TriggerCallback ext cfg rsp st =
     (if \<not> recording st
      then (At_return, rsp\<lparr>success := True, message := ''Recording started.''\<rparr>,
            st\<lparr>recording := True\<rparr>)
      else (case Solve ext cfg st of
              (Returned b, st') \<Rightarrow>
                (At_return,
                 rsp\<lparr>success := b,
                     message := (if b then ''Recording stopped. Solution found.''
                                 else ''Recording stopped. Solution not found.'')\<rparr>,
                 st'\<lparr>measurements := [], corrections := [], recording := False\<rparr>)
            | (Aborted, st') \<Rightarrow> (Process_ended, rsp, st')))"
  by (simp add: TriggerCallback_def eval_nat_numeral Solve_def Let_def emit_keeps
      ceres_Solve_keeps)

text \<open>A step of the thread or an arrival keeps the flag set while the thread is inside
  \<^verbatim>\<open>Solve\<close>.\<close>

lemma solving_act:
  assumes "solving c \<longrightarrow> recording (globals c)"
  shows "solving (act ext cfg c a) \<longrightarrow> recording (globals (act ext cfg c a))"
proof (cases a)
  case (Arrive e)
  with assms show ?thesis by (simp add: solving_def)
next
  case Spin
  show ?thesis
  proof (cases "running c")
    case None
    show ?thesis
    proof (cases "queue c")
      case Nil
      with None Spin show ?thesis by (simp add: spin_once_def solving_def)
    next
      case (Cons e q)
      with None Spin show ?thesis by (cases e) (simp_all add: spin_once_def solving_def)
    qed
  next
    case (Some pr)
    obtain pl rsp where pr: "pr = (pl, rsp)" by (cases pr)
    from assms Some pr Spin show ?thesis
      by (cases pl) (simp_all add: spin_once_def solving_def ceres_Solve_keeps)
  qed
qed

lemma solving_recording:
  assumes "running c0 = None"
  shows "solving (foldl (act ext cfg) c0 acts) \<longrightarrow>
         recording (globals (foldl (act ext cfg) c0 acts))"
proof (rule foldl_invariant [where P = "\<lambda>c. solving c \<longrightarrow> recording (globals c)"])
  show "solving c0 \<longrightarrow> recording (globals c0)" using assms by (simp add: solving_def)
  show "solving (act ext cfg c a) \<longrightarrow> recording (globals (act ext cfg c a))"
    if "solving c \<longrightarrow> recording (globals c)" for c a
    using that by (rule solving_act)
qed

text \<open>While the thread is inside \<^verbatim>\<open>Solve\<close>, whatever happens next leaves the measurements
  and the corrections as they are, and a step of the thread takes nothing from the
  queue.\<close>

lemma solving_keeps:
  assumes "solving c"
  shows "measurements (globals (act ext cfg c a)) = measurements (globals c)"
    and "corrections (globals (act ext cfg c a)) = corrections (globals c)"
    and "queue (act ext cfg c a) = queue c @ (case a of Arrive e \<Rightarrow> [e] | Spin \<Rightarrow> [])"
proof -
  from assms obtain pl rsp where r: "running c = Some (pl, rsp)" and p: "Solve_place pl"
    by (auto simp: solving_def split: option.splits)
  from r p show "measurements (globals (act ext cfg c a)) = measurements (globals c)"
    by (cases a; cases pl) (simp_all add: spin_once_def ceres_Solve_keeps emit_keeps)
  from r p show "corrections (globals (act ext cfg c a)) = corrections (globals c)"
    by (cases a; cases pl) (simp_all add: spin_once_def ceres_Solve_keeps emit_keeps)
  from r p show "queue (act ext cfg c a) = queue c @ (case a of Arrive e \<Rightarrow> [e] | Spin \<Rightarrow> [])"
    by (cases a; cases pl) (simp_all add: spin_once_def)
qed

text \<open>The flag changes only at line 644.\<close>

lemma recording_changes:
  assumes "recording (globals (act ext cfg c a)) \<noteq> recording (globals c)"
  shows "a = Spin \<and> (\<exists>rsp. running c = Some (At_toggle, rsp))"
proof (cases a)
  case (Arrive e)
  with assms show ?thesis by simp
next
  case Spin
  show ?thesis
  proof (cases "running c")
    case None
    show ?thesis
    proof (cases "queue c")
      case Nil
      with None Spin assms show ?thesis by (simp add: spin_once_def)
    next
      case (Cons e q)
      with None Spin assms show ?thesis
        by (cases e) (simp_all add: spin_once_def LightCallback_def CorrectionCallback_def
            Let_def split: if_splits)
    qed
  next
    case (Some pr)
    obtain pl rsp where pr: "pr = (pl, rsp)" by (cases pr)
    from assms Some pr Spin show ?thesis
      by (cases pl) (simp_all add: spin_once_def ceres_Solve_keeps emit_keeps split: if_splits)
  qed
qed

lemma demo_entered:
  "foldl (act demo_ext demo_cfg) demo_spinner demo_entering =
     \<lparr>queue = [], running = Some (In_Solve, Response_init), globals = demo_session\<rparr>"
proof -
  have r: "recording demo_session" by (simp add: demo_session_def)
  show ?thesis
    by (simp add: demo_entering_def demo_spinner_def spin_once_def r)
qed

lemma demo_optimised:
  "solving (foldl (act demo_ext demo_cfg) demo_spinner demo_optimising) \<and>
   recording (globals (foldl (act demo_ext demo_cfg) demo_spinner demo_optimising)) \<and>
   queue (foldl (act demo_ext demo_cfg) demo_spinner demo_optimising) =
     [Light_event 200 wide_light]"
proof -
  have r: "recording demo_session" "measurements demo_session \<noteq> []"
    by (simp_all add: demo_session_def)
  have l: "\<not> aborted (Solve_bootstrap demo_ext demo_cfg demo_session)"
    by (rule demo_live) (simp_all add: demo_cfg_def)
  show ?thesis
    by (simp add: demo_optimising_def demo_entered spin_once_def r l solving_def
        ceres_Solve_keeps)
qed

text \<open>
  Claim C9, amended. \<^verbatim>\<open>TriggerCallback\<close> enters \<^verbatim>\<open>Solve\<close> only while \<^verbatim>\<open>recording_\<close> is
  true, and the flag stays true for the whole of \<^verbatim>\<open>Solve\<close>: it changes only at line 644,
  after \<^verbatim>\<open>Solve\<close> has returned and the data has been cleared. All the same nothing is
  appended to the measurements or to the corrections between the start and the end of
  \<^verbatim>\<open>Solve\<close>: the node runs its callbacks one at a time from the one thread of
  \<^verbatim>\<open>ros::spin\<close>, so a message that arrives meanwhile waits in the queue. It is this, and
  not the flag, that keeps the data as it is: on the globals as they are during \<^verbatim>\<open>Solve\<close>
  the two ingestion callbacks do what they do while the node records. A trigger received
  while the node is not recording only sets the flag.
\<close>

theorem recording_while_solving:
  assumes "running c0 = None"
  shows "let c = foldl (act ext cfg) c0 acts in
     (solving c \<longrightarrow>
        recording (globals c) \<and>
        measurements (globals (act ext cfg c a)) = measurements (globals c) \<and>
        corrections (globals (act ext cfg c a)) = corrections (globals c) \<and>
        queue (act ext cfg c a) = queue c @ (case a of Arrive e \<Rightarrow> [e] | Spin \<Rightarrow> []) \<and>
        LightCallback cfg now msg (globals c) =
          LightCallback cfg now msg ((globals c)\<lparr>recording := True\<rparr>) \<and>
        CorrectionCallback cfg nows tfs (globals c) =
          CorrectionCallback cfg nows tfs ((globals c)\<lparr>recording := True\<rparr>)) \<and>
     (recording (globals (act ext cfg c a)) \<noteq> recording (globals c) \<longrightarrow>
        a = Spin \<and> (\<exists>r. running c = Some (At_toggle, r))) \<and>
     (\<not> recording st \<longrightarrow>
        TriggerCallback ext cfg rsp st =
          (At_return, rsp\<lparr>success := True, message := ''Recording started.''\<rparr>,
           st\<lparr>recording := True\<rparr>)) \<and>
     (recording st \<and> fst (Solve ext cfg st) = Returned b \<longrightarrow>
        snd (snd (TriggerCallback ext cfg rsp st)) =
          (snd (Solve ext cfg st))\<lparr>measurements := [], corrections := [], recording := False\<rparr>)"
proof -
  define c where "c = foldl (act ext cfg) c0 acts"
  have rec: "recording (globals c)" if "solving c"
    using solving_recording [OF assms, of ext cfg acts] that by (simp add: c_def)
  have same: "(globals c)\<lparr>recording := True\<rparr> = globals c" if "solving c"
    using rec [OF that] by simp
  have during: "recording (globals c) \<and>
        measurements (globals (act ext cfg c a)) = measurements (globals c) \<and>
        corrections (globals (act ext cfg c a)) = corrections (globals c) \<and>
        queue (act ext cfg c a) = queue c @ (case a of Arrive e \<Rightarrow> [e] | Spin \<Rightarrow> []) \<and>
        LightCallback cfg now msg (globals c) =
          LightCallback cfg now msg ((globals c)\<lparr>recording := True\<rparr>) \<and>
        CorrectionCallback cfg nows tfs (globals c) =
          CorrectionCallback cfg nows tfs ((globals c)\<lparr>recording := True\<rparr>)"
    if s: "solving c"
    using rec [OF s] solving_keeps [OF s, of ext cfg a] by (simp add: same [OF s])
  have toggle: "a = Spin \<and> (\<exists>r. running c = Some (At_toggle, r))"
    if "recording (globals (act ext cfg c a)) \<noteq> recording (globals c)"
    using that by (rule recording_changes)
  have start: "TriggerCallback ext cfg rsp st =
          (At_return, rsp\<lparr>success := True, message := ''Recording started.''\<rparr>,
           st\<lparr>recording := True\<rparr>)"
    if "\<not> recording st"
    using that by (simp add: TriggerCallback_result)
  have stop: "snd (snd (TriggerCallback ext cfg rsp st)) =
          (snd (Solve ext cfg st))\<lparr>measurements := [], corrections := [], recording := False\<rparr>"
    if "recording st" and "fst (Solve ext cfg st) = Returned b"
    using that by (cases "Solve ext cfg st") (simp add: TriggerCallback_result)
  from during toggle start stop show ?thesis
    unfolding Let_def c_def [symmetric] by blast
qed

theorem recording_while_solving_witness:
  "running demo_spinner = None \<and>
   solving (foldl (act demo_ext demo_cfg) demo_spinner demo_entering) \<and>
   recording (globals (foldl (act demo_ext demo_cfg) demo_spinner demo_entering)) \<and>
   measurements (globals (act demo_ext demo_cfg
      (foldl (act demo_ext demo_cfg) demo_spinner demo_entering)
      (Arrive (Light_event 200 wide_light)))) = measurements demo_session \<and>
   queue (act demo_ext demo_cfg
      (foldl (act demo_ext demo_cfg) demo_spinner demo_entering)
      (Arrive (Light_event 200 wide_light))) = [Light_event 200 wide_light] \<and>
   \<not> recording demo_idle \<and>
   recording (snd (snd (TriggerCallback demo_ext demo_cfg demo_rsp demo_idle))) \<and>
   recording demo_session \<and> fst (Solve demo_ext demo_cfg demo_session) = Returned True \<and>
   \<not> recording (snd (snd (TriggerCallback demo_ext demo_cfg demo_rsp demo_session))) \<and>
   measurements (snd (snd (TriggerCallback demo_ext demo_cfg demo_rsp demo_session))) = []"
proof -
  have n: "running demo_spinner = None" by (simp add: demo_spinner_def)
  have s: "solving (foldl (act demo_ext demo_cfg) demo_spinner demo_entering)"
    by (simp add: demo_entered solving_def)
  have i: "\<not> recording demo_idle" by (simp add: demo_idle_def)
  have r: "recording demo_session" by (simp add: demo_session_def)
  have l: "\<not> aborted (Solve_bootstrap demo_ext demo_cfg demo_session)"
    by (rule demo_live) (simp_all add: demo_cfg_def)
  have t: "fst (Solve demo_ext demo_cfg demo_session) = Returned True"
    using l by (simp add: Solve_succeeds demo_session_def demo_ext_def)
  note w = recording_while_solving [OF n, of demo_ext demo_cfg demo_entering
      "Arrive (Light_event 200 wide_light)" 200 wide_light "ros_now demo_ext" demo_tfs,
      unfolded Let_def]
  from w [of demo_idle demo_rsp] s
  have 1: "recording (globals (foldl (act demo_ext demo_cfg) demo_spinner demo_entering)) \<and>
     measurements (globals (act demo_ext demo_cfg
        (foldl (act demo_ext demo_cfg) demo_spinner demo_entering)
        (Arrive (Light_event 200 wide_light)))) =
       measurements (globals (foldl (act demo_ext demo_cfg) demo_spinner demo_entering)) \<and>
     queue (act demo_ext demo_cfg
        (foldl (act demo_ext demo_cfg) demo_spinner demo_entering)
        (Arrive (Light_event 200 wide_light))) =
       queue (foldl (act demo_ext demo_cfg) demo_spinner demo_entering) @
         [Light_event 200 wide_light]"
    by simp
  from w [of demo_idle demo_rsp] i
  have 2: "recording (snd (snd (TriggerCallback demo_ext demo_cfg demo_rsp demo_idle)))"
    by simp
  from w [of demo_session demo_rsp True] r t
  have 3: "snd (snd (TriggerCallback demo_ext demo_cfg demo_rsp demo_session)) =
      (snd (Solve demo_ext demo_cfg demo_session))\<lparr>measurements := [], corrections := [],
         recording := False\<rparr>"
    by simp
  from n s 1 i 2 r t 3 show ?thesis by (simp add: demo_entered)
qed

text \<open>The claim as it was stated has \<^verbatim>\<open>recording_\<close> false while \<^verbatim>\<open>Solve\<close> runs. In the
  session \<open>demo_session\<close> the flag is set when the trigger has entered \<^verbatim>\<open>Solve\<close> and
  still when \<^verbatim>\<open>ceres::Solve\<close> has returned; \<^verbatim>\<open>LightCallback\<close>, were it to run on the
  globals then, would store its message.\<close>

theorem recording_while_solving_counterexample:
  "solving (foldl (act demo_ext demo_cfg) demo_spinner demo_entering) \<and>
   recording (globals (foldl (act demo_ext demo_cfg) demo_spinner demo_entering)) \<and>
   solving (foldl (act demo_ext demo_cfg) demo_spinner demo_optimising) \<and>
   recording (globals (foldl (act demo_ext demo_cfg) demo_spinner demo_optimising)) \<and>
   (200, wide_light) \<in> set (measurements (LightCallback demo_cfg 200 wide_light
      (globals (foldl (act demo_ext demo_cfg) demo_spinner demo_entering))))"
proof -
  have "measurements (LightCallback demo_cfg 200 wide_light demo_session) =
      map_assign 200 wide_light (measurements demo_session)"
    by (simp add: LightCallback_def light_accepted_def too_few_def demo_session_def
        demo_idle_def demo_cfg_def wide_light_def Let_def)
  moreover have "recording demo_session" by (simp add: demo_session_def)
  moreover have "solving (foldl (act demo_ext demo_cfg) demo_spinner demo_entering)"
    by (simp add: demo_entered solving_def)
  ultimately show ?thesis
    using demo_optimised by (simp add: demo_entered map_assign_mem)
qed


end
